theory Spec2Isabelle
  imports Main
begin

section \<open>Values exchanged with the downstream JSON-RPC service\<close>

text \<open>
  The client is written in TypeScript and passes payloads of type \<^verbatim>\<open>any\<close> around.
  A payload is modelled as a JavaScript value as \<^verbatim>\<open>JSON.parse\<close> produces it, with
  \<open>JUndefined\<close> added for the value of a missing property. Numbers are restricted
  to integers; an object keeps its members in an association list in which a later
  duplicate key wins, as \<^verbatim>\<open>JSON.parse\<close> does.
\<close>

datatype jsvalue =
    JUndefined
  | JNull
  | JBool bool
  | JNum int
  | JStr string
  | JArr "jsvalue list"
  | JObj "(string \<times> jsvalue) list"

text \<open>JavaScript truthiness, as used by \<^verbatim>\<open>if (x)\<close> and \<^verbatim>\<open>x || y\<close>.\<close>

fun truthy :: "jsvalue \<Rightarrow> bool" where
  "truthy JUndefined = False"
| "truthy JNull = False"
| "truthy (JBool b) = b"
| "truthy (JNum n) = (n \<noteq> 0)"
| "truthy (JStr s) = (s \<noteq> [])"
| "truthy (JArr xs) = True"
| "truthy (JObj kvs) = True"

text \<open>
  Property access \<^verbatim>\<open>v.k\<close> for the names the client reads (\<^verbatim>\<open>error\<close>,
  \<^verbatim>\<open>message\<close>, \<^verbatim>\<open>result\<close>). On \<^verbatim>\<open>null\<close> and \<^verbatim>\<open>undefined\<close> it throws a TypeError,
  which the caller of \<open>member\<close> has to rule out with \<open>nullish\<close> first; on an object
  it yields the member, or \<^verbatim>\<open>undefined\<close> when there is none; on the other values it
  yields \<^verbatim>\<open>undefined\<close>.
\<close>

fun nullish :: "jsvalue \<Rightarrow> bool" where
  "nullish JUndefined = True"
| "nullish JNull = True"
| "nullish v = False"

fun member :: "jsvalue \<Rightarrow> string \<Rightarrow> jsvalue" where
  "member (JObj kvs) k = (case map_of (rev kvs) k of None \<Rightarrow> JUndefined | Some v \<Rightarrow> v)"
| "member v k = JUndefined"

text \<open>Decimal printing of an integer, as a template literal prints a \<^verbatim>\<open>number\<close>.\<close>

definition digit_char :: "nat \<Rightarrow> char" where
  "digit_char d = char_of (48 + d)"

function nat_to_string :: "nat \<Rightarrow> string" where
  "nat_to_string n = (if n < 10 then [digit_char n] else nat_to_string (n div 10) @ [digit_char (n mod 10)])"
  by pat_completeness auto
termination
  by (relation "measure id") auto

declare nat_to_string.simps [simp del]

definition number_to_string :: "int \<Rightarrow> string" where
  "number_to_string i = (if i < 0 then CHR ''-'' # nat_to_string (nat (- i)) else nat_to_string (nat i))"

fun join :: "string \<Rightarrow> string list \<Rightarrow> string" where
  "join sep [] = []"
| "join sep [x] = x"
| "join sep (x # y # ys) = x @ sep @ join sep (y # ys)"

text \<open>\<^verbatim>\<open>String(v)\<close>, the conversion the \<^verbatim>\<open>Error\<close> constructor applies to its message.\<close>

fun js_to_string :: "jsvalue \<Rightarrow> string" where
  "js_to_string JUndefined = ''undefined''"
| "js_to_string JNull = ''null''"
| "js_to_string (JBool b) = (if b then ''true'' else ''false'')"
| "js_to_string (JNum n) = number_to_string n"
| "js_to_string (JStr s) = s"
| "js_to_string (JArr xs) =
     join '','' (map (\<lambda>x. if x = JNull \<or> x = JUndefined then [] else js_to_string x) xs)"
| "js_to_string (JObj kvs) = ''[object Object]''"

section \<open>Error classes\<close>

text \<open>
  The three error classes of \<^verbatim>\<open>sei-mcp-client.ts\<close>, the plain \<^verbatim>\<open>Error\<close> the
  client also throws, and any other thrown value (\<^verbatim>\<open>error: unknown\<close>).
\<close>

datatype js_error =
    MCPConnectionError string
  | MCPRequestError string "int option"
  | MCPTimeoutError string
  | PlainError string
  | NonError jsvalue

section \<open>Rate limiter\<close>

record RateLimiter =
  requests :: "int list"
  maxRequests :: int
  windowMs :: int

definition new_RateLimiter :: "int \<Rightarrow> int \<Rightarrow> RateLimiter" where
  "new_RateLimiter mx w = \<lparr> requests = [], maxRequests = mx, windowMs = w \<rparr>"

text \<open>
  \<^verbatim>\<open>canMakeRequest\<close> reads the clock (\<open>now\<close>), replaces the list of timestamps by the
  ones still inside the window, and compares the remaining count with the quota.
\<close>

definition canMakeRequest :: "int \<Rightarrow> RateLimiter \<Rightarrow> bool \<times> RateLimiter" where
  "canMakeRequest now rl =
     (let rl' = rl\<lparr> requests := filter (\<lambda>time. now - time < windowMs rl) (requests rl) \<rparr>
      in (int (length (requests rl')) < maxRequests rl', rl'))"

definition recordRequest :: "int \<Rightarrow> RateLimiter \<Rightarrow> RateLimiter" where
  "recordRequest now rl = rl\<lparr> requests := requests rl @ [now] \<rparr>"

section \<open>Transport\<close>

text \<open>
  What a \<^verbatim>\<open>fetch\<close> followed by \<^verbatim>\<open>response.json()\<close> can give: the fetch itself
  rejects (an \<^verbatim>\<open>Error\<close> with a message), or a response arrives with a status, a
  status text and a body that either fails to parse (the parse error's message) or
  parses to a value.
\<close>

datatype http_reply =
    NetworkFailure string
  | HttpResponse int string "string + jsvalue"

definition response_ok :: "int \<Rightarrow> bool" where
  "response_ok st = (200 \<le> st \<and> st \<le> 299)"

record HTTPMCPTransport =
  serverUrl :: string
  sessionId :: "string option"

definition new_HTTPMCPTransport :: "string \<Rightarrow> HTTPMCPTransport" where
  "new_HTTPMCPTransport url = \<lparr> serverUrl = url, sessionId = None \<rparr>"

text \<open>
  \<^verbatim>\<open>HTTPMCPTransport.connect\<close>, given the reply of the health probe and the clock
  value that names the session. Every failure inside the \<^verbatim>\<open>try\<close> is rethrown as an
  \<^verbatim>\<open>MCPConnectionError\<close>.
\<close>

definition transport_connect :: "int \<Rightarrow> http_reply \<Rightarrow> HTTPMCPTransport \<Rightarrow> js_error + HTTPMCPTransport" where
  "transport_connect now reply t =
     (let failed = (\<lambda>m. Inl (MCPConnectionError
                     (''Failed to connect to MCP server at '' @ serverUrl t @ '': '' @ m)))
      in case reply of
           NetworkFailure m \<Rightarrow> failed m
         | HttpResponse st txt b \<Rightarrow>
             if \<not> response_ok st
             then failed (''Health check failed: '' @ number_to_string st @ '' '' @ txt)
             else (case b of
                     Inl m \<Rightarrow> failed m
                   | Inr healthData \<Rightarrow>
                       Inr (t\<lparr> sessionId := Some (''http-session-'' @ number_to_string now) \<rparr>)))"

text \<open>
  \<^verbatim>\<open>HTTPMCPTransport.request\<close>, given the reply to the POST. A body that is
  \<^verbatim>\<open>null\<close> makes \<^verbatim>\<open>result.error\<close> throw a TypeError, whose message is the engine's;
  a truthy \<^verbatim>\<open>result.error\<close> is never \<^verbatim>\<open>null\<close>, so its \<^verbatim>\<open>message\<close> can be read.
\<close>

definition null_property_message :: string where
  "null_property_message = ''Cannot read properties of null (reading 'error')''"

definition transport_request :: "string \<Rightarrow> jsvalue \<Rightarrow> http_reply \<Rightarrow> HTTPMCPTransport \<Rightarrow> js_error + jsvalue" where
  "transport_request method params reply t =
     (case sessionId t of
        None \<Rightarrow> Inl (MCPConnectionError ''Not connected to MCP server'')
      | Some sid \<Rightarrow>
          if sid = [] then Inl (MCPConnectionError ''Not connected to MCP server'')
          else
          (let wrapped = (\<lambda>m. Inl (MCPRequestError (''MCP request failed: '' @ m) None))
           in case reply of
                NetworkFailure m \<Rightarrow> wrapped m
              | HttpResponse st txt b \<Rightarrow>
                  if \<not> response_ok st
                  then Inl (MCPRequestError
                              (''MCP server request failed: '' @ number_to_string st @ '' '' @ txt)
                              (Some st))
                  else (case b of
                          Inl m \<Rightarrow> wrapped m
                        | Inr result \<Rightarrow>
                            if nullish result then wrapped null_property_message
                            else if truthy (member result ''error'')
                            then Inl (MCPRequestError
                                        (if truthy (member (member result ''error'') ''message'')
                                         then js_to_string (member (member result ''error'') ''message'')
                                         else ''MCP request error'') None)
                            else Inr (member result ''result''))))"

definition transport_close :: "HTTPMCPTransport \<Rightarrow> HTTPMCPTransport" where
  "transport_close t = t\<lparr> sessionId := None \<rparr>"

section \<open>Gateway client\<close>

record MCPClientConfig =
  server_url :: string
  maxRequestsPerMinute :: int
  cacheTTL :: int

record cache_entry =
  data :: jsvalue
  timestamp :: int

text \<open>
  The promise returned by \<^verbatim>\<open>connect()\<close> is an object shared between the field
  \<^verbatim>\<open>connecting\<close> and every caller awaiting it, so promises live in a store and
  are referred to by their index.
\<close>

datatype promise = Pending | Fulfilled | Rejected js_error

text \<open>
  The fields of the class, the promise store, and two logs of what reaches the
  Transport: the number of calls of its \<^verbatim>\<open>connect\<close> (each sends one liveness probe)
  and the list of calls of its \<^verbatim>\<open>request\<close> (operation and parameters).
\<close>

record SeiMCPClient =
  transport :: "HTTPMCPTransport option"
  config :: MCPClientConfig
  cache :: "string \<rightharpoonup> cache_entry"
  rateLimiter :: RateLimiter
  connecting :: "nat option"
  connected :: bool
  promises :: "promise list"
  probes :: nat
  dispatched :: "(string \<times> jsvalue) list"

definition new_SeiMCPClient :: "MCPClientConfig \<Rightarrow> SeiMCPClient" where
  "new_SeiMCPClient cfg =
     \<lparr> transport = None, config = cfg, cache = Map.empty,
       rateLimiter = new_RateLimiter (maxRequestsPerMinute cfg) 60000,
       connecting = None, connected = False, promises = [], probes = 0, dispatched = [] \<rparr>"

definition promise_state :: "SeiMCPClient \<Rightarrow> nat \<Rightarrow> promise" where
  "promise_state s p = (if p < length (promises s) then promises s ! p else Pending)"

subsection \<open>Cache\<close>

text \<open>
  \<^verbatim>\<open>getCachedData\<close> returns \<^verbatim>\<open>null\<close> for a miss; an expired entry is deleted.
  An entry is an object, hence truthy, so \<^verbatim>\<open>!cached\<close> holds for a missing key only.
\<close>

definition getCachedData :: "string \<Rightarrow> int \<Rightarrow> SeiMCPClient \<Rightarrow> jsvalue \<times> SeiMCPClient" where
  "getCachedData key now s =
     (case cache s key of
        None \<Rightarrow> (JNull, s)
      | Some cached \<Rightarrow>
          if now - timestamp cached > cacheTTL (config s)
          then (JNull, s\<lparr> cache := (cache s)(key := None) \<rparr>)
          else (data cached, s))"

definition setCachedData :: "string \<Rightarrow> jsvalue \<Rightarrow> int \<Rightarrow> SeiMCPClient \<Rightarrow> SeiMCPClient" where
  "setCachedData key d now s = s\<lparr> cache := (cache s)(key \<mapsto> \<lparr> data = d, timestamp = now \<rparr>) \<rparr>"

definition clearCache :: "string option \<Rightarrow> SeiMCPClient \<Rightarrow> SeiMCPClient" where
  "clearCache key s =
     (case key of
        Some k \<Rightarrow> if k \<noteq> [] then s\<lparr> cache := (cache s)(k := None) \<rparr> else s\<lparr> cache := Map.empty \<rparr>
      | None \<Rightarrow> s\<lparr> cache := Map.empty \<rparr>)"

subsection \<open>Connection\<close>

text \<open>
  An \<^verbatim>\<open>async\<close> function runs synchronously up to its first \<^verbatim>\<open>await\<close> that has to
  wait. \<open>ensureConnected_call\<close> is that first part of \<^verbatim>\<open>ensureConnected\<close>: it either
  returns at once, or ends up awaiting a promise, as the caller that started the
  attempt (\<open>True\<close>) or as one that joined it. Starting the attempt runs the first
  part of \<^verbatim>\<open>connect()\<close>: a new transport is created and its liveness probe is sent.
\<close>

datatype suspension = Done | Awaiting nat bool

definition connect_start :: "SeiMCPClient \<Rightarrow> nat \<times> SeiMCPClient" where
  "connect_start s =
     (length (promises s),
      s\<lparr> transport := Some (new_HTTPMCPTransport (server_url (config s))),
         probes := probes s + 1,
         promises := promises s @ [Pending] \<rparr>)"

definition ensureConnected_call :: "SeiMCPClient \<Rightarrow> suspension \<times> SeiMCPClient" where
  "ensureConnected_call s =
     (if connected s \<and> transport s \<noteq> None then (Done, s)
      else case connecting s of
             Some p \<Rightarrow> (Awaiting p False, s)
           | None \<Rightarrow> (let (p, s') = connect_start s
                      in (Awaiting p True, s'\<lparr> connecting := Some p \<rparr>)))"

text \<open>
  The rest of \<^verbatim>\<open>connect()\<close>, run when the probe of the attempt behind promise \<open>p\<close>
  has been answered: the transport's \<^verbatim>\<open>connect\<close> finishes, then either
  \<^verbatim>\<open>connected\<close> is set and the promise is fulfilled, or the \<^verbatim>\<open>catch\<close> block resets
  \<^verbatim>\<open>transport\<close> and \<^verbatim>\<open>connected\<close> and the promise is rejected with the error.
\<close>

definition connect_finish :: "nat \<Rightarrow> int \<Rightarrow> http_reply \<Rightarrow> SeiMCPClient \<Rightarrow> SeiMCPClient" where
  "connect_finish p now reply s =
     (if promise_state s p \<noteq> Pending \<or> length (promises s) \<le> p then s
      else case transport s of
             None \<Rightarrow> s
           | Some t \<Rightarrow>
               (case transport_connect now reply t of
                  Inr t' \<Rightarrow> s\<lparr> transport := Some t', connected := True,
                               promises := (promises s)[p := Fulfilled] \<rparr>
                | Inl e \<Rightarrow> s\<lparr> transport := None, connected := False,
                              promises := (promises s)[p := Rejected e] \<rparr>))"

text \<open>
  The continuation of \<^verbatim>\<open>ensureConnected\<close> after its \<^verbatim>\<open>await\<close>, once the promise
  is settled. Only the caller that started the attempt has the statement
  \<^verbatim>\<open>this.connecting = null\<close> after its \<^verbatim>\<open>await\<close>, and a rejected \<^verbatim>\<open>await\<close> throws
  before reaching it.
\<close>

datatype 'a outcome = Returns 'a | Throws js_error | Suspended

definition ensureConnected_resume :: "nat \<Rightarrow> bool \<Rightarrow> SeiMCPClient \<Rightarrow> unit outcome \<times> SeiMCPClient" where
  "ensureConnected_resume p owner s =
     (case promise_state s p of
        Pending \<Rightarrow> (Suspended, s)
      | Rejected e \<Rightarrow> (Throws e, s)
      | Fulfilled \<Rightarrow> (Returns (), if owner then s\<lparr> connecting := None \<rparr> else s))"

text \<open>
  One call of \<^verbatim>\<open>ensureConnected\<close> run to completion with nothing else interleaved:
  \<open>reply\<close> answers the probe if this call sends one.
\<close>

definition ensureConnected :: "int \<Rightarrow> http_reply \<Rightarrow> SeiMCPClient \<Rightarrow> unit outcome \<times> SeiMCPClient" where
  "ensureConnected now reply s =
     (case ensureConnected_call s of
        (Done, s1) \<Rightarrow> (Returns (), s1)
      | (Awaiting p owner, s1) \<Rightarrow>
          ensureConnected_resume p owner (if owner then connect_finish p now reply s1 else s1))"

subsection \<open>Request wrapper\<close>

text \<open>
  What one call of \<^verbatim>\<open>makeRequest\<close> takes from its environment: the values of
  \<^verbatim>\<open>Date.now()\<close> at the five places that read the clock (cache lookup, rate-limit
  check, rate-limit record, session creation, cache store), the reply to the liveness
  probe and the reply to the RPC call.
\<close>

record env =
  clock_get :: int
  clock_check :: int
  clock_record :: int
  clock_session :: int
  clock_set :: int
  health_reply :: http_reply
  rpc_reply :: http_reply

text \<open>
  \<^verbatim>\<open>makeRequest(operation, params, cacheKey?)\<close>. The optional \<^verbatim>\<open>cacheKey\<close> is tested
  for truthiness, so the empty string counts as absent, and so is the cached value.
\<close>

definition cache_key_given :: "string option \<Rightarrow> string option" where
  "cache_key_given cacheKey = (case cacheKey of Some k \<Rightarrow> if k \<noteq> [] then Some k else None | None \<Rightarrow> None)"

text \<open>\<open>dispatch\<close> is the body of \<^verbatim>\<open>makeRequest\<close> from the rate-limit check on.\<close>

definition dispatch :: "string \<Rightarrow> jsvalue \<Rightarrow> string option \<Rightarrow> env \<Rightarrow> SeiMCPClient \<Rightarrow> jsvalue outcome \<times> SeiMCPClient" where
  "dispatch operation params cacheKey e s =
     (let (ok, rl) = canMakeRequest (clock_check e) (rateLimiter s);
          s1 = s\<lparr> rateLimiter := rl \<rparr>
      in if \<not> ok
         then (Throws (MCPRequestError ''Rate limit exceeded. Please try again later.'' None), s1)
         else
           (let s2 = s1\<lparr> rateLimiter := recordRequest (clock_record e) rl \<rparr>
            in case ensureConnected (clock_session e) (health_reply e) s2 of
                 (Suspended, s3) \<Rightarrow> (Suspended, s3)
               | (Throws err, s3) \<Rightarrow> (Throws err, s3)
               | (Returns u, s3) \<Rightarrow>
                   (case transport s3 of
                      None \<Rightarrow>
                        (Throws (MCPConnectionError ''Failed to establish MCP server connection''), s3)
                    | Some t \<Rightarrow>
                        if \<not> connected s3
                        then (Throws (MCPConnectionError ''Failed to establish MCP server connection''), s3)
                        else
                          (let s4 = s3\<lparr> dispatched := dispatched s3 @ [(operation, params)] \<rparr>
                           in case transport_request operation params (rpc_reply e) t of
                                Inl err \<Rightarrow> (Throws err, s4)
                              | Inr result \<Rightarrow>
                                  (Returns result,
                                   case cache_key_given cacheKey of
                                     Some k \<Rightarrow> setCachedData k result (clock_set e) s4
                                   | None \<Rightarrow> s4)))))"

definition makeRequest :: "string \<Rightarrow> jsvalue \<Rightarrow> string option \<Rightarrow> env \<Rightarrow> SeiMCPClient \<Rightarrow> jsvalue outcome \<times> SeiMCPClient" where
  "makeRequest operation params cacheKey e s =
     (case cache_key_given cacheKey of
        Some k \<Rightarrow>
          (let (cached, s0) = getCachedData k (clock_get e) s
           in if truthy cached then (Returns cached, s0)
              else dispatch operation params cacheKey e s0)
      | None \<Rightarrow> dispatch operation params cacheKey e s)"

subsection \<open>Public operations\<close>

text \<open>A parameter \<^verbatim>\<open>network: string = 'sei'\<close> takes its default when the argument is omitted.\<close>

definition network_or_default :: "string option \<Rightarrow> string" where
  "network_or_default network = (case network of None \<Rightarrow> ''sei'' | Some n \<Rightarrow> n)"

definition getWalletBalance :: "string \<Rightarrow> string option \<Rightarrow> env \<Rightarrow> SeiMCPClient \<Rightarrow> jsvalue outcome \<times> SeiMCPClient" where
  "getWalletBalance address network e s =
     makeRequest ''get_balance''
       (JObj [(''address'', JStr address), (''network'', JStr (network_or_default network))])
       None e s"

definition transferSei :: "string \<Rightarrow> string \<Rightarrow> string option \<Rightarrow> env \<Rightarrow> SeiMCPClient \<Rightarrow> jsvalue outcome \<times> SeiMCPClient" where
  "transferSei to amount network e s =
     makeRequest ''transfer_sei''
       (JObj [(''to'', JStr to), (''amount'', JStr amount), (''network'', JStr (network_or_default network))])
       None e s"




section \<open>Query parser\<close>

text \<open>
  A regular expression without anchors is searched from the left: the match is the
  one at the first position where the pattern matches. Both address patterns are a
  literal followed by a greedy bounded repetition of a character class with nothing
  after it, so matching at a position needs no backtracking.
\<close>

fun regex_search :: "(string \<Rightarrow> string option) \<Rightarrow> string \<Rightarrow> string option" where
  "regex_search here [] = here []"
| "regex_search here (c # cs) =
     (case here (c # cs) of Some m \<Rightarrow> Some m | None \<Rightarrow> regex_search here cs)"

definition is_digit :: "char \<Rightarrow> bool" where
  "is_digit c = (48 \<le> (of_char c :: nat) \<and> (of_char c :: nat) \<le> 57)"

definition is_lower :: "char \<Rightarrow> bool" where
  "is_lower c = (97 \<le> (of_char c :: nat) \<and> (of_char c :: nat) \<le> 122)"

definition is_sei_char :: "char \<Rightarrow> bool" where
  "is_sei_char c = (is_lower c \<or> is_digit c)"

definition is_hex_char :: "char \<Rightarrow> bool" where
  "is_hex_char c =
     ((97 \<le> (of_char c :: nat) \<and> (of_char c :: nat) \<le> 102) \<or>
      (65 \<le> (of_char c :: nat) \<and> (of_char c :: nat) \<le> 70) \<or> is_digit c)"

text \<open>\<^verbatim>\<open>/sei1[a-z0-9]{38,58}/\<close> at the start of the text.\<close>

definition sei_here :: "string \<Rightarrow> string option" where
  "sei_here s =
     (if take 4 s = ''sei1'' \<and> 38 \<le> length (takeWhile is_sei_char (drop 4 s))
      then Some (''sei1'' @ take 58 (takeWhile is_sei_char (drop 4 s)))
      else None)"

text \<open>\<^verbatim>\<open>/0x[a-fA-F0-9]{40}/\<close> at the start of the text.\<close>

definition evm_here :: "string \<Rightarrow> string option" where
  "evm_here s =
     (if take 2 s = ''0x'' \<and> 40 \<le> length (takeWhile is_hex_char (drop 2 s))
      then Some (''0x'' @ take 40 (drop 2 s))
      else None)"

definition extractWalletAddress :: "string \<Rightarrow> string option" where
  "extractWalletAddress query =
     (case regex_search sei_here query of
        Some seiMatch \<Rightarrow> Some seiMatch
      | None \<Rightarrow>
          (case regex_search evm_here query of
             Some evmMatch \<Rightarrow> Some evmMatch
           | None \<Rightarrow> None))"

section \<open>Error utilities\<close>

text \<open>\<^verbatim>\<open>toLowerCase\<close> on the ASCII letters, and \<^verbatim>\<open>String.prototype.includes\<close>.\<close>

definition lower_char :: "char \<Rightarrow> char" where
  "lower_char c =
     (if 65 \<le> (of_char c :: nat) \<and> (of_char c :: nat) \<le> 90 then char_of ((of_char c :: nat) + 32) else c)"

definition toLowerCase :: "string \<Rightarrow> string" where
  "toLowerCase s = map lower_char s"

fun str_includes :: "string \<Rightarrow> string \<Rightarrow> bool" where
  "str_includes [] sub = (sub = [])"
| "str_includes (c # cs) sub = (take (length sub) (c # cs) = sub \<or> str_includes cs sub)"

fun isRecoverableError :: "js_error \<Rightarrow> bool" where
  "isRecoverableError (MCPTimeoutError m) = True"
| "isRecoverableError (MCPConnectionError m) = True"
| "isRecoverableError (MCPRequestError m c) =
     (let message = toLowerCase m
      in str_includes message ''rate limit'' \<or> str_includes message ''temporary'' \<or> str_includes message ''timeout'')"
| "isRecoverableError (PlainError m) = False"
| "isRecoverableError (NonError v) = False"

section \<open>Concurrent callers\<close>

text \<open>
  JavaScript runs one continuation at a time; between an \<^verbatim>\<open>await\<close> and its
  continuation anything else may run. A schedule is a list of events: a caller enters
  \<^verbatim>\<open>ensureConnected\<close>, the probe behind a promise is answered, or a suspended caller
  is resumed (which has an effect only once its promise is settled). The world holds
  the client, the suspended callers (caller, awaited promise, whether it started the
  attempt) and what each finished call of \<^verbatim>\<open>ensureConnected\<close> observed.
\<close>

datatype event = Call nat | ProbeDone nat int http_reply | Resume nat

record world =
  client :: SeiMCPClient
  waiting :: "(nat \<times> nat \<times> bool) list"
  finished :: "(nat \<times> unit outcome) list"

definition new_world :: "MCPClientConfig \<Rightarrow> world" where
  "new_world cfg = \<lparr> client = new_SeiMCPClient cfg, waiting = [], finished = [] \<rparr>"

fun step :: "event \<Rightarrow> world \<Rightarrow> world" where
  "step (Call i) w =
     (case ensureConnected_call (client w) of
        (Done, s) \<Rightarrow> w\<lparr> client := s, finished := finished w @ [(i, Returns ())] \<rparr>
      | (Awaiting p owner, s) \<Rightarrow> w\<lparr> client := s, waiting := waiting w @ [(i, p, owner)] \<rparr>)"
| "step (ProbeDone p now reply) w = w\<lparr> client := connect_finish p now reply (client w) \<rparr>"
| "step (Resume i) w =
     (case find (\<lambda>x. fst x = i) (waiting w) of
        None \<Rightarrow> w
      | Some (j, p, owner) \<Rightarrow>
          (case ensureConnected_resume p owner (client w) of
             (Suspended, s) \<Rightarrow> w
           | (out, s) \<Rightarrow> w\<lparr> client := s,
                              waiting := remove1 (j, p, owner) (waiting w),
                              finished := finished w @ [(i, out)] \<rparr>))"

fun run :: "event list \<Rightarrow> world \<Rightarrow> world" where
  "run [] w = w"
| "run (ev # evs) w = run evs (step ev w)"

section \<open>Call sequences used in the statements\<close>

text \<open>
  The check-then-record pair as \<^verbatim>\<open>makeRequest\<close> performs it, repeated: each element
  gives the clock value read by \<^verbatim>\<open>canMakeRequest\<close> and the one read by
  \<^verbatim>\<open>recordRequest\<close>. The result is \<open>None\<close> as soon as one request is not admitted.
\<close>

fun admit_all :: "(int \<times> int) list \<Rightarrow> RateLimiter \<Rightarrow> RateLimiter option" where
  "admit_all [] rl = Some rl"
| "admit_all ((tc, tr) # ts) rl =
     (case canMakeRequest tc rl of
        (True, rl') \<Rightarrow> admit_all ts (recordRequest tr rl')
      | (False, rl') \<Rightarrow> None)"

text \<open>
  The two address shapes stated on the text itself: somewhere in the query stands
  \<^verbatim>\<open>sei1\<close> followed by at least 38 characters of \<^verbatim>\<open>[a-z0-9]\<close>, respectively \<^verbatim>\<open>0x\<close>
  followed by 40 hexadecimal digits.
\<close>

definition contains_sei_address :: "string \<Rightarrow> bool" where
  "contains_sei_address q \<longleftrightarrow>
     (\<exists>pre body suf. q = pre @ ''sei1'' @ body @ suf \<and> 38 \<le> length body \<and> (\<forall>c \<in> set body. is_sei_char c))"

definition contains_evm_address :: "string \<Rightarrow> bool" where
  "contains_evm_address q \<longleftrightarrow>
     (\<exists>pre body suf. q = pre @ ''0x'' @ body @ suf \<and> length body = 40 \<and> (\<forall>c \<in> set body. is_hex_char c))"





text \<open>
  An environment in which every clock read gives \<open>t\<close>, the liveness probe is answered
  with 200 and a JSON body, and the RPC call is answered with the result \<open>v\<close>.
\<close>

definition healthy_env :: "int \<Rightarrow> jsvalue \<Rightarrow> env" where
  "healthy_env t v =
     \<lparr> clock_get = t, clock_check = t, clock_record = t, clock_session = t, clock_set = t,
       health_reply = HttpResponse 200 ''OK'' (Inr (JObj [(''status'', JStr ''ok'')])),
       rpc_reply = HttpResponse 200 ''OK'' (Inr (JObj [(''jsonrpc'', JStr ''2.0''), (''result'', v)])) \<rparr>"

definition example_config :: MCPClientConfig where
  "example_config = \<lparr> server_url = ''http://localhost:3004'', maxRequestsPerMinute = 60, cacheTTL = 30000 \<rparr>"

text \<open>
  Two identical balance calls, one second apart, on a new client whose downstream
  service is healthy; and two identical native transfers in the same setting.
\<close>

definition first_balance_call :: "jsvalue outcome \<times> SeiMCPClient" where
  "first_balance_call =
     getWalletBalance ''sei1w3pmkxgzf6kwqtd4ng2yy0gqtdc63nxntk6nts'' None
       (healthy_env 0 (JStr ''100'')) (new_SeiMCPClient example_config)"

definition second_balance_call :: "jsvalue outcome \<times> SeiMCPClient" where
  "second_balance_call =
     getWalletBalance ''sei1w3pmkxgzf6kwqtd4ng2yy0gqtdc63nxntk6nts'' None
       (healthy_env 1000 (JStr ''100'')) (snd first_balance_call)"

definition first_transfer_call :: "jsvalue outcome \<times> SeiMCPClient" where
  "first_transfer_call =
     transferSei ''sei1w3pmkxgzf6kwqtd4ng2yy0gqtdc63nxntk6nts'' ''1'' None
       (healthy_env 0 (JStr ''0xabc'')) (new_SeiMCPClient example_config)"

definition second_transfer_call :: "jsvalue outcome \<times> SeiMCPClient" where
  "second_transfer_call =
     transferSei ''sei1w3pmkxgzf6kwqtd4ng2yy0gqtdc63nxntk6nts'' ''1'' None
       (healthy_env 1000 (JStr ''0xabc'')) (snd first_transfer_call)"


text \<open>
  A first connection attempt on a new client that fails because the server cannot be
  reached, followed by a second call when the server is healthy again.
\<close>

definition failed_connect :: "unit outcome \<times> SeiMCPClient" where
  "failed_connect =
     ensureConnected 1000 (NetworkFailure ''fetch failed'') (new_SeiMCPClient example_config)"

definition retry_connect :: "unit outcome \<times> SeiMCPClient" where
  "retry_connect =
     ensureConnected 2000 (HttpResponse 200 ''OK'' (Inr (JObj [(''status'', JStr ''ok'')])))
       (snd failed_connect)"

definition retry_balance_call :: "jsvalue outcome \<times> SeiMCPClient" where
  "retry_balance_call =
     getWalletBalance ''sei1w3pmkxgzf6kwqtd4ng2yy0gqtdc63nxntk6nts'' None
       (healthy_env 2000 (JStr ''100'')) (snd failed_connect)"

text \<open>
  The stages a world goes through when it starts from a new client: nothing has
  happened; one attempt is pending; the attempt has succeeded; the attempt has failed.
  From the second stage on exactly one probe has been sent, every suspended caller
  awaits promise 0, and the finished callers have all observed the same outcome.
\<close>

definition untouched :: "world \<Rightarrow> bool" where
  "untouched w \<longleftrightarrow>
     promises (client w) = [] \<and> probes (client w) = 0 \<and> connecting (client w) = None \<and>
     \<not> connected (client w) \<and> waiting w = [] \<and> finished w = []"

definition attempt_pending :: "world \<Rightarrow> bool" where
  "attempt_pending w \<longleftrightarrow>
     promises (client w) = [Pending] \<and> connecting (client w) = Some 0 \<and>
     \<not> connected (client w) \<and> transport (client w) \<noteq> None \<and> finished w = []"

definition attempt_succeeded :: "world \<Rightarrow> bool" where
  "attempt_succeeded w \<longleftrightarrow>
     promises (client w) = [Fulfilled] \<and> connected (client w) \<and> transport (client w) \<noteq> None \<and>
     list_all (\<lambda>x. snd x = Returns ()) (finished w)"

definition attempt_failed :: "js_error \<Rightarrow> world \<Rightarrow> bool" where
  "attempt_failed e w \<longleftrightarrow>
     promises (client w) = [Rejected e] \<and> connecting (client w) = Some 0 \<and>
     \<not> connected (client w) \<and> list_all (\<lambda>x. snd x = Throws e) (finished w)"

definition one_attempt :: "world \<Rightarrow> bool" where
  "one_attempt w \<longleftrightarrow>
     probes (client w) = 1 \<and> list_all (\<lambda>x. fst (snd x) = 0) (waiting w) \<and>
     (attempt_pending w \<or> attempt_succeeded w \<or> (\<exists>e. attempt_failed e w))"

text \<open>
  What a caller of \<^verbatim>\<open>ensureConnected\<close> observes from a settled promise, and the outcome
  of the one attempt of a new client, given the clock value and the reply to its probe.
\<close>

fun settled_outcome :: "promise \<Rightarrow> unit outcome" where
  "settled_outcome Fulfilled = Returns ()"
| "settled_outcome (Rejected e) = Throws e"
| "settled_outcome Pending = Suspended"

definition connection_outcome :: "MCPClientConfig \<Rightarrow> int \<Rightarrow> http_reply \<Rightarrow> unit outcome" where
  "connection_outcome cfg now reply =
     (case transport_connect now reply (new_HTTPMCPTransport (server_url cfg)) of
        Inr t \<Rightarrow> Returns ()
      | Inl e \<Rightarrow> Throws e)"

text \<open>A world in which no call of \<^verbatim>\<open>ensureConnected\<close> is under way.\<close>

definition idle_world :: "SeiMCPClient \<Rightarrow> world" where
  "idle_world s = \<lparr> client = s, waiting = [], finished = [] \<rparr>"


text \<open>
  The address the search has to return, stated on the text itself. A \<^verbatim>\<open>sei1\<close>
  address begins at a position when \<^verbatim>\<open>sei1\<close> and at least 38 characters of
  \<^verbatim>\<open>[a-z0-9]\<close> stand there. The match is the one at the first such position, and it
  takes as many characters of the class as there are, up to 58. For \<^verbatim>\<open>0x\<close> the match
  is the one at the first position where \<^verbatim>\<open>0x\<close> and 40 hexadecimal digits stand, and
  it takes exactly these 40.
\<close>

definition sei_address_here :: "string \<Rightarrow> bool" where
  "sei_address_here r \<longleftrightarrow>
     (\<exists>body suf. r = ''sei1'' @ body @ suf \<and> 38 \<le> length body \<and> (\<forall>c \<in> set body. is_sei_char c))"

definition evm_address_here :: "string \<Rightarrow> bool" where
  "evm_address_here r \<longleftrightarrow>
     (\<exists>body suf. r = ''0x'' @ body @ suf \<and> length body = 40 \<and> (\<forall>c \<in> set body. is_hex_char c))"

definition leftmost_sei_address :: "string \<Rightarrow> string \<Rightarrow> bool" where
  "leftmost_sei_address q a \<longleftrightarrow>
     (\<exists>pre body suf.
        q = pre @ ''sei1'' @ body @ suf \<and> a = ''sei1'' @ body \<and>
        38 \<le> length body \<and> length body \<le> 58 \<and> (\<forall>c \<in> set body. is_sei_char c) \<and>
        (length body = 58 \<or> (case suf of [] \<Rightarrow> True | c # cs \<Rightarrow> \<not> is_sei_char c)) \<and>
        (\<forall>pre' r. q = pre' @ r \<and> length pre' < length pre \<longrightarrow> \<not> sei_address_here r))"

definition leftmost_evm_address :: "string \<Rightarrow> string \<Rightarrow> bool" where
  "leftmost_evm_address q a \<longleftrightarrow>
     (\<exists>pre body suf.
        q = pre @ ''0x'' @ body @ suf \<and> a = ''0x'' @ body \<and>
        length body = 40 \<and> (\<forall>c \<in> set body. is_hex_char c) \<and>
        (\<forall>pre' r. q = pre' @ r \<and> length pre' < length pre \<longrightarrow> \<not> evm_address_here r))"

text \<open>
  Containment of a marker regardless of the case of the ASCII letters, stated without
  any conversion of the message: some stretch of the message agrees with the marker
  character by character, where a capital letter of the message agrees with its small
  letter in the marker.
\<close>

definition is_upper :: "char \<Rightarrow> bool" where
  "is_upper c = (65 \<le> (of_char c :: nat) \<and> (of_char c :: nat) \<le> 90)"

definition same_ignoring_case :: "char \<Rightarrow> char \<Rightarrow> bool" where
  "same_ignoring_case x y \<longleftrightarrow>
     x = y \<or> (x, y) \<in> set (zip ''ABCDEFGHIJKLMNOPQRSTUVWXYZ'' ''abcdefghijklmnopqrstuvwxyz'')"

definition mentions :: "string \<Rightarrow> string \<Rightarrow> bool" where
  "mentions m marker \<longleftrightarrow>
     (\<exists>pre mid suf. m = pre @ mid @ suf \<and> list_all2 same_ignoring_case mid marker)"

section \<open>Rate limiter: admission\<close>

lemma canMakeRequest_fields [simp]:
  "windowMs (snd (canMakeRequest now rl)) = windowMs rl"
  "maxRequests (snd (canMakeRequest now rl)) = maxRequests rl"
  "requests (snd (canMakeRequest now rl)) = filter (\<lambda>t. now - t < windowMs rl) (requests rl)"
  "fst (canMakeRequest now rl) \<longleftrightarrow>
     int (length (filter (\<lambda>t. now - t < windowMs rl) (requests rl))) < maxRequests rl"
  by (simp_all add: canMakeRequest_def Let_def)

lemma recordRequest_fields [simp]:
  "windowMs (recordRequest now rl) = windowMs rl"
  "maxRequests (recordRequest now rl) = maxRequests rl"
  "requests (recordRequest now rl) = requests rl @ [now]"
  by (simp_all add: recordRequest_def)

text \<open>
  Requests recorded inside the window of a later instant \<open>now\<close>, and checked no later
  than \<open>now\<close>, are all still counted at \<open>now\<close>: no intermediate check prunes them.
\<close>

lemma admit_all_keeps:
  assumes "admit_all ts rl = Some rl'"
    and "\<forall>(c, r) \<in> set ts. c \<le> now \<and> now - r < windowMs rl"
  shows "windowMs rl' = windowMs rl \<and> maxRequests rl' = maxRequests rl \<and>
         length (filter (\<lambda>t. now - t < windowMs rl) (requests rl')) =
         length (filter (\<lambda>t. now - t < windowMs rl) (requests rl)) + length ts"
  using assms
proof (induction ts arbitrary: rl)
  case Nil
  then show ?case by simp
next
  case (Cons a ts)
  obtain c r where a: "a = (c, r)" by (cases a)
  obtain ok rl1 where cm: "canMakeRequest c rl = (ok, rl1)" by (cases "canMakeRequest c rl")
  from Cons.prems(1) a cm have rest: "admit_all ts (recordRequest r rl1) = Some rl'"
    by (auto split: if_splits bool.splits)
  have rl1: "rl1 = snd (canMakeRequest c rl)" using cm by simp
  have w: "windowMs (recordRequest r rl1) = windowMs rl" by (simp add: rl1)
  from Cons.prems(2) a have cr: "c \<le> now" "now - r < windowMs rl" by auto
  have "\<forall>(c', r') \<in> set ts. c' \<le> now \<and> now - r' < windowMs (recordRequest r rl1)"
    using Cons.prems(2) w by auto
  from Cons.IH[OF rest this] have ih:
    "windowMs rl' = windowMs rl" "maxRequests rl' = maxRequests rl"
    "length (filter (\<lambda>t. now - t < windowMs rl) (requests rl')) =
     length (filter (\<lambda>t. now - t < windowMs rl) (requests (recordRequest r rl1))) + length ts"
    by (simp_all add: w rl1)
  have "filter (\<lambda>t. now - t < windowMs rl) (filter (\<lambda>t. c - t < windowMs rl) (requests rl))
        = filter (\<lambda>t. now - t < windowMs rl) (requests rl)"
    using cr(1) by (auto intro!: filter_cong)
  then have "length (filter (\<lambda>t. now - t < windowMs rl) (requests (recordRequest r rl1)))
        = length (filter (\<lambda>t. now - t < windowMs rl) (requests rl)) + 1"
    using cr(2) by (simp add: rl1)
  with ih show ?case by simp
qed

text \<open>While the quota is not used up, every request of a sequence is admitted.\<close>

lemma admit_all_below_quota:
  "int (length (requests rl) + length ts) \<le> maxRequests rl \<Longrightarrow> \<exists>rl'. admit_all ts rl = Some rl'"
proof (induction ts arbitrary: rl)
  case Nil
  then show ?case by simp
next
  case (Cons a ts)
  obtain c r where a: "a = (c, r)" by (cases a)
  let ?rl1 = "snd (canMakeRequest c rl)"
  have A: "int (length (filter (\<lambda>t. c - t < windowMs rl) (requests rl))) \<le> int (length (requests rl))"
    by simp
  have B: "int (length (requests rl)) + int (length ts) + 1 \<le> maxRequests rl"
    using Cons.prems by simp
  from A B have "int (length (filter (\<lambda>t. c - t < windowMs rl) (requests rl))) < maxRequests rl"
    by linarith
  then have ok: "fst (canMakeRequest c rl)" by simp
  have C: "int (length (requests (recordRequest r ?rl1)))
           = int (length (filter (\<lambda>t. c - t < windowMs rl) (requests rl))) + 1"
    and D: "maxRequests (recordRequest r ?rl1) = maxRequests rl"
    by simp_all
  have "int (length (requests (recordRequest r ?rl1)) + length ts) \<le> maxRequests (recordRequest r ?rl1)"
    unfolding D of_nat_add C using A B by linarith
  from Cons.IH[OF this] obtain rl' where "admit_all ts (recordRequest r ?rl1) = Some rl'" by blast
  with ok a show ?case by (cases "canMakeRequest c rl") auto
qed

text \<open>
  Claim C5. \<^verbatim>\<open>canMakeRequest\<close> replaces the timestamps by those still inside the
  window and answers whether their number is strictly below the quota. After exactly
  quota requests that were admitted and recorded inside the window of the instant \<open>now\<close>,
  the check at \<open>now\<close> rejects. Once the window has passed for every recorded timestamp,
  a limiter with a positive quota admits again (its list is emptied). A quota of 0
  rejects every request.
\<close>

theorem rate_limiter_admission:
  "(fst (canMakeRequest now rl) \<longleftrightarrow>
      int (length (filter (\<lambda>t. now - t < windowMs rl) (requests rl))) < maxRequests rl)
   \<and> requests (snd (canMakeRequest now rl)) = filter (\<lambda>t. now - t < windowMs rl) (requests rl)
   \<and> (admit_all ts rl = Some rl' \<and> int (length ts) = maxRequests rl \<and>
        (\<forall>(c, r) \<in> set ts. c \<le> now \<and> now - r < windowMs rl)
        \<longrightarrow> \<not> fst (canMakeRequest now rl'))
   \<and> ((\<forall>t \<in> set (requests rl). windowMs rl \<le> now - t) \<and> 0 < maxRequests rl
        \<longrightarrow> fst (canMakeRequest now rl) \<and> requests (snd (canMakeRequest now rl)) = [])
   \<and> (maxRequests rl = 0 \<longrightarrow> \<not> fst (canMakeRequest now rl))"
proof (intro conjI impI)
  assume h: "admit_all ts rl = Some rl' \<and> int (length ts) = maxRequests rl \<and>
        (\<forall>(c, r) \<in> set ts. c \<le> now \<and> now - r < windowMs rl)"
  from admit_all_keeps[of ts rl rl' now] h
  have "windowMs rl' = windowMs rl" "maxRequests rl' = maxRequests rl"
       "length ts \<le> length (filter (\<lambda>t. now - t < windowMs rl) (requests rl'))"
    by auto
  with h show "\<not> fst (canMakeRequest now rl')" by simp
next
  assume h: "(\<forall>t \<in> set (requests rl). windowMs rl \<le> now - t) \<and> 0 < maxRequests rl"
  then have "filter (\<lambda>t. now - t < windowMs rl) (requests rl) = []"
    by (auto simp: filter_empty_conv)
  with h show "fst (canMakeRequest now rl)" by simp
next
  assume h: "(\<forall>t \<in> set (requests rl). windowMs rl \<le> now - t) \<and> 0 < maxRequests rl"
  then show "requests (snd (canMakeRequest now rl)) = []"
    by (auto simp: filter_empty_conv)
qed simp_all

theorem rate_limiter_admission_witness:
  "admit_all [(0, 0), (1000, 1001)] (new_RateLimiter 2 60000)
     = Some \<lparr> requests = [0, 1001], maxRequests = 2, windowMs = 60000 \<rparr>
   \<and> \<not> fst (canMakeRequest 2000 \<lparr> requests = [0, 1001], maxRequests = 2, windowMs = 60000 \<rparr>)
   \<and> fst (canMakeRequest 61001 \<lparr> requests = [0, 1001], maxRequests = 2, windowMs = 60000 \<rparr>)
   \<and> \<not> fst (canMakeRequest 5 (new_RateLimiter 0 60000))"
  using rate_limiter_admission[of 2000 "new_RateLimiter 2 60000" "[(0, 0), (1000, 1001)]"
          "\<lparr> requests = [0, 1001], maxRequests = 2, windowMs = 60000 \<rparr>"]
        rate_limiter_admission[of 61001 "\<lparr> requests = [0, 1001], maxRequests = 2, windowMs = 60000 \<rparr>" "[]"]
        rate_limiter_admission[of 5 "new_RateLimiter 0 60000" "[]"]
  by (simp add: new_RateLimiter_def canMakeRequest_def recordRequest_def)

section \<open>Response cache: time to live\<close>

lemma getCachedData_after_set:
  "getCachedData key t1 (setCachedData key v t0 s) =
     (if t1 - t0 > cacheTTL (config s)
      then (JNull, (setCachedData key v t0 s)\<lparr> cache := (cache s)(key := None) \<rparr>)
      else (v, setCachedData key v t0 s))"
  by (simp add: getCachedData_def setCachedData_def)

lemma getCachedData_absent:
  "cache s key = None \<Longrightarrow> getCachedData key now s = (JNull, s)"
  by (simp add: getCachedData_def)

text \<open>
  Claim C4. For every key, value and client state: a lookup at a clock value \<open>t1\<close>
  with \<open>t1 - t0\<close> strictly below the TTL, where \<open>t0\<close> is the clock value of the store,
  returns the stored value and leaves the cache as it is; a lookup with \<open>t1 - t0\<close>
  strictly above the TTL returns the miss value \<^verbatim>\<open>null\<close> and deletes the entry, so
  that any later lookup finds no entry and is a miss again.
\<close>

theorem cache_ttl_semantics:
  "(t1 - t0 < cacheTTL (config s) \<longrightarrow>
      getCachedData key t1 (setCachedData key v t0 s) = (v, setCachedData key v t0 s))
   \<and> (cacheTTL (config s) < t1 - t0 \<longrightarrow>
      fst (getCachedData key t1 (setCachedData key v t0 s)) = JNull
      \<and> cache (snd (getCachedData key t1 (setCachedData key v t0 s))) key = None
      \<and> getCachedData key t2 (snd (getCachedData key t1 (setCachedData key v t0 s)))
          = (JNull, snd (getCachedData key t1 (setCachedData key v t0 s))))"
  by (simp add: getCachedData_after_set getCachedData_absent)

theorem cache_ttl_semantics_witness:
  "getCachedData ''k'' 29999 (setCachedData ''k'' (JNum 7) 0 (new_SeiMCPClient \<lparr> server_url = ''u'', maxRequestsPerMinute = 60, cacheTTL = 30000 \<rparr>))
     = (JNum 7, setCachedData ''k'' (JNum 7) 0 (new_SeiMCPClient \<lparr> server_url = ''u'', maxRequestsPerMinute = 60, cacheTTL = 30000 \<rparr>))
   \<and> fst (getCachedData ''k'' 30001 (setCachedData ''k'' (JNum 7) 0 (new_SeiMCPClient \<lparr> server_url = ''u'', maxRequestsPerMinute = 60, cacheTTL = 30000 \<rparr>))) = JNull
   \<and> cache (snd (getCachedData ''k'' 30001 (setCachedData ''k'' (JNum 7) 0 (new_SeiMCPClient \<lparr> server_url = ''u'', maxRequestsPerMinute = 60, cacheTTL = 30000 \<rparr>)))) ''k'' = None"
  using cache_ttl_semantics[of 29999 0 "new_SeiMCPClient \<lparr> server_url = ''u'', maxRequestsPerMinute = 60, cacheTTL = 30000 \<rparr>" "''k''" "JNum 7"]
        cache_ttl_semantics[of 30001 0 "new_SeiMCPClient \<lparr> server_url = ''u'', maxRequestsPerMinute = 60, cacheTTL = 30000 \<rparr>" "''k''" "JNum 7" 30002]
  by (simp add: new_SeiMCPClient_def)

text \<open>
  Claim C10. The expiry test is the strict comparison \<^verbatim>\<open>Date.now() - timestamp > cacheTTL\<close>:
  a lookup made when the age of the entry is exactly the TTL returns the stored value
  and leaves the entry in the cache.
\<close>

theorem cache_expiry_boundary:
  "cache s key = Some cached \<Longrightarrow> now - timestamp cached = cacheTTL (config s) \<Longrightarrow>
     getCachedData key now s = (data cached, s)"
  by (simp add: getCachedData_def)

theorem cache_expiry_boundary_witness:
  "getCachedData ''k'' 30000 (setCachedData ''k'' (JNum 7) 0 (new_SeiMCPClient \<lparr> server_url = ''u'', maxRequestsPerMinute = 60, cacheTTL = 30000 \<rparr>))
     = (JNum 7, setCachedData ''k'' (JNum 7) 0 (new_SeiMCPClient \<lparr> server_url = ''u'', maxRequestsPerMinute = 60, cacheTTL = 30000 \<rparr>))"
  using cache_expiry_boundary[of "setCachedData ''k'' (JNum 7) 0 (new_SeiMCPClient \<lparr> server_url = ''u'', maxRequestsPerMinute = 60, cacheTTL = 30000 \<rparr>)"
          "''k''" "\<lparr> data = JNum 7, timestamp = 0 \<rparr>" 30000]
  by (simp add: new_SeiMCPClient_def setCachedData_def)

section \<open>Transport: error taxonomy of a request\<close>

text \<open>
  When the error member is truthy but carries no message (or an empty one), the
  error raised has the fixed message of the \<^verbatim>\<open>||\<close> fallback.
\<close>

lemma transport_request_default_message:
  "sessionId t = Some sid \<Longrightarrow> sid \<noteq> [] \<Longrightarrow> response_ok st \<Longrightarrow> \<not> nullish body \<Longrightarrow>
   truthy (member body ''error'') \<Longrightarrow> \<not> truthy (member (member body ''error'') ''message'') \<Longrightarrow>
   transport_request method params (HttpResponse st txt (Inr body)) t
     = Inl (MCPRequestError ''MCP request error'' None)"
  by (simp add: transport_request_def)

text \<open>
  Claim C6. On a connected transport: a reply whose status is outside 200..299 raises
  an \<^verbatim>\<open>MCPRequestError\<close> whose status code is that status (500 for a downstream 500);
  a 2xx reply whose body has an error member with a non-empty message string raises
  an \<^verbatim>\<open>MCPRequestError\<close> whose message is that string; a 2xx reply whose body has no
  error member (or a falsy one) returns the body's result member unchanged. The body
  is any parsed JSON value but \<^verbatim>\<open>null\<close>.
\<close>

theorem transport_request_taxonomy:
  "sessionId t = Some sid \<and> sid \<noteq> [] \<longrightarrow>
     (\<not> response_ok st \<longrightarrow>
        transport_request method params (HttpResponse st txt b) t
          = Inl (MCPRequestError (''MCP server request failed: '' @ number_to_string st @ '' '' @ txt) (Some st)))
   \<and> (response_ok st \<and> \<not> nullish body \<and> truthy (member body ''error'') \<and>
        member (member body ''error'') ''message'' = JStr m \<and> m \<noteq> [] \<longrightarrow>
        transport_request method params (HttpResponse st txt (Inr body)) t
          = Inl (MCPRequestError m None))
   \<and> (response_ok st \<and> \<not> nullish body \<and> \<not> truthy (member body ''error'') \<longrightarrow>
        transport_request method params (HttpResponse st txt (Inr body)) t
          = Inr (member body ''result''))"
  by (simp add: transport_request_def)


lemma number_to_string_500: "number_to_string 500 = ''500''"
  by code_simp

theorem transport_request_taxonomy_witness:
  "transport_request ''get_balance'' (JObj [(''address'', JStr ''a'')])
      (HttpResponse 500 ''Internal Server Error'' (Inl ''Unexpected token''))
      \<lparr> serverUrl = ''http://localhost:3004'', sessionId = Some ''http-session-1'' \<rparr>
     = Inl (MCPRequestError ''MCP server request failed: 500 Internal Server Error'' (Some 500))
   \<and> transport_request ''get_balance'' (JObj [(''address'', JStr ''a'')])
      (HttpResponse 200 ''OK'' (Inr (JObj [(''jsonrpc'', JStr ''2.0''), (''id'', JStr ''x1''),
          (''error'', JObj [(''code'', JNum (- 32601)), (''message'', JStr ''Method not found'')])])))
      \<lparr> serverUrl = ''http://localhost:3004'', sessionId = Some ''http-session-1'' \<rparr>
     = Inl (MCPRequestError ''Method not found'' None)
   \<and> transport_request ''get_balance'' (JObj [(''address'', JStr ''a'')])
      (HttpResponse 200 ''OK'' (Inr (JObj [(''jsonrpc'', JStr ''2.0''), (''id'', JStr ''x1''),
          (''result'', JObj [(''balance'', JStr ''12'')])])))
      \<lparr> serverUrl = ''http://localhost:3004'', sessionId = Some ''http-session-1'' \<rparr>
     = Inr (JObj [(''balance'', JStr ''12'')])"
  using transport_request_taxonomy[of "\<lparr> serverUrl = ''http://localhost:3004'', sessionId = Some ''http-session-1'' \<rparr>"
          "''http-session-1''" 500 "''get_balance''" "JObj [(''address'', JStr ''a'')]" "''Internal Server Error''"
          "Inl ''Unexpected token''"]
        transport_request_taxonomy[of "\<lparr> serverUrl = ''http://localhost:3004'', sessionId = Some ''http-session-1'' \<rparr>"
          "''http-session-1''" 200 "''get_balance''" "JObj [(''address'', JStr ''a'')]" "''OK''" _
          "JObj [(''jsonrpc'', JStr ''2.0''), (''id'', JStr ''x1''),
          (''error'', JObj [(''code'', JNum (- 32601)), (''message'', JStr ''Method not found'')])]"
          "''Method not found''"]
        transport_request_taxonomy[of "\<lparr> serverUrl = ''http://localhost:3004'', sessionId = Some ''http-session-1'' \<rparr>"
          "''http-session-1''" 200 "''get_balance''" "JObj [(''address'', JStr ''a'')]" "''OK''" _
          "JObj [(''jsonrpc'', JStr ''2.0''), (''id'', JStr ''x1''),
          (''result'', JObj [(''balance'', JStr ''12'')])]"]
  by (simp add: response_ok_def number_to_string_500)

section \<open>Error utilities: recoverability\<close>

text \<open>\<^verbatim>\<open>includes\<close> finds exactly the substrings.\<close>

lemma str_includes_iff: "str_includes s sub \<longleftrightarrow> (\<exists>pre suf. s = pre @ sub @ suf)"
proof (induction s)
  case Nil
  then show ?case by auto
next
  case (Cons c cs)
  have pre: "take (length sub) (c # cs) = sub \<longleftrightarrow> (\<exists>suf. c # cs = sub @ suf)"
  proof
    assume "take (length sub) (c # cs) = sub"
    then have "c # cs = sub @ drop (length sub) (c # cs)"
      by (metis append_take_drop_id)
    then show "\<exists>suf. c # cs = sub @ suf" ..
  next
    assume "\<exists>suf. c # cs = sub @ suf"
    then show "take (length sub) (c # cs) = sub" by auto
  qed
  have "(\<exists>pre suf. c # cs = pre @ sub @ suf) \<longleftrightarrow>
        (\<exists>suf. c # cs = sub @ suf) \<or> (\<exists>pre suf. cs = pre @ sub @ suf)"
  proof
    assume "\<exists>pre suf. c # cs = pre @ sub @ suf"
    then obtain pre suf where e: "c # cs = pre @ sub @ suf" by blast
    show "(\<exists>suf. c # cs = sub @ suf) \<or> (\<exists>pre suf. cs = pre @ sub @ suf)"
    proof (cases pre)
      case Nil
      with e show ?thesis by auto
    next
      case (Cons d pre')
      with e have "cs = pre' @ sub @ suf" by simp
      then show ?thesis by blast
    qed
  next
    assume "(\<exists>suf. c # cs = sub @ suf) \<or> (\<exists>pre suf. cs = pre @ sub @ suf)"
    then show "\<exists>pre suf. c # cs = pre @ sub @ suf"
    proof
      assume "\<exists>suf. c # cs = sub @ suf"
      then obtain suf where "c # cs = [] @ sub @ suf" by auto
      then show ?thesis by blast
    next
      assume "\<exists>pre suf. cs = pre @ sub @ suf"
      then obtain pre suf where "cs = pre @ sub @ suf" by blast
      then have "c # cs = (c # pre) @ sub @ suf" by simp
      then show ?thesis by blast
    qed
  qed
  with pre Cons.IH show ?case by simp
qed

lemma capital_to_small:
  "\<forall>x::char. is_upper x \<longrightarrow>
     (x, lower_char x) \<in> set (zip ''ABCDEFGHIJKLMNOPQRSTUVWXYZ'' ''abcdefghijklmnopqrstuvwxyz'')"
  by code_simp

lemma small_of_capital:
  "\<forall>p \<in> set (zip ''ABCDEFGHIJKLMNOPQRSTUVWXYZ'' ''abcdefghijklmnopqrstuvwxyz'').
     lower_char (fst p) = snd p"
  by code_simp

lemma lower_char_other: "\<not> is_upper x \<Longrightarrow> lower_char x = x"
  by (auto simp: lower_char_def is_upper_def)


lemma lower_char_eq:
  assumes "\<not> is_upper y"
  shows "lower_char x = y \<longleftrightarrow> same_ignoring_case x y"
proof
  assume e: "lower_char x = y"
  show "same_ignoring_case x y"
  proof (cases "is_upper x")
    case True
    with capital_to_small e show ?thesis unfolding same_ignoring_case_def by blast
  next
    case False
    with lower_char_other[of x] e show ?thesis unfolding same_ignoring_case_def by simp
  qed
next
  assume "same_ignoring_case x y"
  then consider "x = y" | "(x, y) \<in> set (zip ''ABCDEFGHIJKLMNOPQRSTUVWXYZ'' ''abcdefghijklmnopqrstuvwxyz'')"
    unfolding same_ignoring_case_def by blast
  then show "lower_char x = y"
  proof cases
    case 1
    with assms lower_char_other[of x] show ?thesis by simp
  next
    case 2
    with small_of_capital have "lower_char (fst (x, y)) = snd (x, y)" by (rule bspec)
    then show ?thesis by simp
  qed
qed

lemma map_eq_list_all2: "map f xs = ys \<longleftrightarrow> list_all2 (\<lambda>x y. f x = y) xs ys"
  by (induction xs arbitrary: ys) (auto simp: list_all2_Cons1)

lemma toLowerCase_eq:
  assumes "\<forall>y \<in> set marker. \<not> is_upper y"
  shows "toLowerCase mid = marker \<longleftrightarrow> list_all2 same_ignoring_case mid marker"
proof -
  have "list_all2 (\<lambda>x y. lower_char x = y) mid marker \<longleftrightarrow> list_all2 same_ignoring_case mid marker"
  proof
    assume "list_all2 (\<lambda>x y. lower_char x = y) mid marker"
    then show "list_all2 same_ignoring_case mid marker"
      by (rule list.rel_mono_strong) (use assms lower_char_eq in simp)
  next
    assume "list_all2 same_ignoring_case mid marker"
    then show "list_all2 (\<lambda>x y. lower_char x = y) mid marker"
      by (rule list.rel_mono_strong) (use assms lower_char_eq in simp)
  qed
  then show ?thesis by (simp only: toLowerCase_def map_eq_list_all2)
qed

lemma toLowerCase_append: "toLowerCase (xs @ ys) = toLowerCase xs @ toLowerCase ys"
  by (simp add: toLowerCase_def)

lemma mentions_iff:
  assumes "\<forall>y \<in> set marker. \<not> is_upper y"
  shows "mentions m marker \<longleftrightarrow> str_includes (toLowerCase m) marker"
proof
  assume "mentions m marker"
  then obtain pre mid suf where m: "m = pre @ mid @ suf" "list_all2 same_ignoring_case mid marker"
    unfolding mentions_def by (elim exE conjE)
  from m(2) have "toLowerCase mid = marker" by (simp only: toLowerCase_eq[OF assms])
  with m(1) have "toLowerCase m = toLowerCase pre @ marker @ toLowerCase suf"
    by (simp only: toLowerCase_append)
  then show "str_includes (toLowerCase m) marker"
    unfolding str_includes_iff by (intro exI)
next
  assume "str_includes (toLowerCase m) marker"
  then obtain pre' suf' where e: "toLowerCase m = pre' @ marker @ suf'"
    unfolding str_includes_iff by (elim exE)
  then have "map lower_char m = pre' @ (marker @ suf')" by (simp only: toLowerCase_def)
  then obtain pre r where 1: "m = pre @ r" "pre' = map lower_char pre" "marker @ suf' = map lower_char r"
    unfolding map_eq_append_conv by (elim exE conjE)
  from 1(3) have "map lower_char r = marker @ suf'" by (rule sym)
  then obtain mid suf where 2: "r = mid @ suf" "marker = map lower_char mid" "suf' = map lower_char suf"
    unfolding map_eq_append_conv by (elim exE conjE)
  from 2(2) have "toLowerCase mid = marker" by (simp only: toLowerCase_def)
  then have "list_all2 same_ignoring_case mid marker" by (simp only: toLowerCase_eq[OF assms])
  moreover from 1(1) 2(1) have "m = pre @ mid @ suf" by simp
  ultimately show "mentions m marker" unfolding mentions_def by (intro exI conjI)
qed

lemma markers_small:
  "\<forall>y \<in> set ''rate limit''. \<not> is_upper y"
  "\<forall>y \<in> set ''temporary''. \<not> is_upper y"
  "\<forall>y \<in> set ''timeout''. \<not> is_upper y"
  by code_simp+

text \<open>
  Claim C9. The classifier answers true for every \<^verbatim>\<open>MCPConnectionError\<close> and every
  \<^verbatim>\<open>MCPTimeoutError\<close>; for an \<^verbatim>\<open>MCPRequestError\<close> it answers true exactly when the
  message contains, in any mix of capital and small letters, the rate-limit marker
  \<^verbatim>\<open>rate limit\<close> or one of the markers of a transient condition, \<^verbatim>\<open>temporary\<close> and
  \<^verbatim>\<open>timeout\<close>; it answers false for a plain \<^verbatim>\<open>Error\<close> and for any other thrown
  value.
\<close>

theorem isRecoverableError_classification:
  "isRecoverableError (MCPConnectionError m)
   \<and> isRecoverableError (MCPTimeoutError m)
   \<and> (isRecoverableError (MCPRequestError m c) \<longleftrightarrow>
        mentions m ''rate limit'' \<or> mentions m ''temporary'' \<or> mentions m ''timeout'')
   \<and> \<not> isRecoverableError (PlainError m)
   \<and> \<not> isRecoverableError (NonError v)"
  by (simp add: Let_def mentions_iff[OF markers_small(1)] mentions_iff[OF markers_small(2)]
      mentions_iff[OF markers_small(3)])

text \<open>
  The rejection raised by the client's own rate limiter is classified recoverable; a
  failure with a status code and none of the markers is not.
\<close>

lemma rate_limit_rejection_recoverable:
  "isRecoverableError (MCPRequestError ''Rate limit exceeded. Please try again later.'' None)"
  by code_simp

lemma status_failure_not_recoverable:
  "\<not> isRecoverableError (MCPRequestError ''MCP server request failed: 500 Internal Server Error'' (Some 500))"
  by code_simp

lemma example_messages_lowered:
  "str_includes (toLowerCase ''Rate limit exceeded. Please try again later.'') ''rate limit''"
  "str_includes (toLowerCase ''Gateway TIMEOUT'') ''timeout''"
  "\<not> str_includes (toLowerCase ''MCP server request failed: 500 Internal Server Error'') ''rate limit''"
  "\<not> str_includes (toLowerCase ''MCP server request failed: 500 Internal Server Error'') ''temporary''"
  "\<not> str_includes (toLowerCase ''MCP server request failed: 500 Internal Server Error'') ''timeout''"
  by code_simp+

theorem isRecoverableError_classification_witness:
  "mentions ''Rate limit exceeded. Please try again later.'' ''rate limit''
   \<and> isRecoverableError (MCPRequestError ''Rate limit exceeded. Please try again later.'' None)
   \<and> mentions ''Gateway TIMEOUT'' ''timeout''
   \<and> isRecoverableError (MCPRequestError ''Gateway TIMEOUT'' (Some 504))
   \<and> \<not> mentions ''MCP server request failed: 500 Internal Server Error'' ''rate limit''
   \<and> \<not> mentions ''MCP server request failed: 500 Internal Server Error'' ''temporary''
   \<and> \<not> mentions ''MCP server request failed: 500 Internal Server Error'' ''timeout''
   \<and> \<not> isRecoverableError (MCPRequestError ''MCP server request failed: 500 Internal Server Error'' (Some 500))"
proof -
  have p1: "mentions ''Rate limit exceeded. Please try again later.'' ''rate limit''"
    using example_messages_lowered(1) by (simp only: mentions_iff[OF markers_small(1)] simp_thms)
  have p2: "mentions ''Gateway TIMEOUT'' ''timeout''"
    using example_messages_lowered(2) by (simp only: mentions_iff[OF markers_small(3)] simp_thms)
  have n1: "\<not> mentions ''MCP server request failed: 500 Internal Server Error'' ''rate limit''"
    using example_messages_lowered(3) by (simp only: mentions_iff[OF markers_small(1)] simp_thms)
  have n2: "\<not> mentions ''MCP server request failed: 500 Internal Server Error'' ''temporary''"
    using example_messages_lowered(4) by (simp only: mentions_iff[OF markers_small(2)] simp_thms)
  have n3: "\<not> mentions ''MCP server request failed: 500 Internal Server Error'' ''timeout''"
    using example_messages_lowered(5) by (simp only: mentions_iff[OF markers_small(3)] simp_thms)
  from isRecoverableError_classification[of "''Rate limit exceeded. Please try again later.''" None] p1
  have r1: "isRecoverableError (MCPRequestError ''Rate limit exceeded. Please try again later.'' None)"
    by blast
  from isRecoverableError_classification[of "''Gateway TIMEOUT''" "Some 504"] p2
  have r2: "isRecoverableError (MCPRequestError ''Gateway TIMEOUT'' (Some 504))"
    by blast
  from isRecoverableError_classification[of "''MCP server request failed: 500 Internal Server Error''" "Some 500"]
       n1 n2 n3
  have r3: "\<not> isRecoverableError (MCPRequestError ''MCP server request failed: 500 Internal Server Error'' (Some 500))"
    by blast
  from p1 r1 p2 r2 n1 n2 n3 r3 show ?thesis by (intro conjI)
qed

section \<open>Query parser: wallet address\<close>

text \<open>The search finds a match exactly when the pattern matches at some position.\<close>

lemma regex_search_Some:
  "regex_search here q = Some m \<Longrightarrow> \<exists>pre rest. q = pre @ rest \<and> here rest = Some m"
proof (induction q)
  case Nil
  then show ?case by auto
next
  case (Cons c cs)
  show ?case
  proof (cases "here (c # cs)")
    case None
    with Cons.prems have "regex_search here cs = Some m" by simp
    from Cons.IH[OF this] obtain pre rest where "cs = pre @ rest" "here rest = Some m" by blast
    then have "c # cs = (c # pre) @ rest \<and> here rest = Some m" by simp
    then show ?thesis by blast
  next
    case (Some a)
    with Cons.prems have "c # cs = [] @ (c # cs) \<and> here (c # cs) = Some m" by simp
    then show ?thesis by blast
  qed
qed

lemma regex_search_found:
  "here rest \<noteq> None \<Longrightarrow> regex_search here (pre @ rest) \<noteq> None"
proof (induction pre)
  case Nil
  then show ?case by (cases rest) auto
next
  case (Cons c pre)
  then show ?case by (cases "here (c # pre @ rest)") auto
qed

lemma regex_search_iff:
  "regex_search here q \<noteq> None \<longleftrightarrow> (\<exists>pre rest. q = pre @ rest \<and> here rest \<noteq> None)"
  using regex_search_Some[of here q] regex_search_found[of here] by fastforce

lemma literal_prefix: "take (length lit) s = lit \<longleftrightarrow> (\<exists>r. s = lit @ r)"
proof
  assume "take (length lit) s = lit"
  then have "s = lit @ drop (length lit) s" by (metis append_take_drop_id)
  then show "\<exists>r. s = lit @ r" ..
next
  assume "\<exists>r. s = lit @ r"
  then show "take (length lit) s = lit" by auto
qed

lemma takeWhile_run:
  "n \<le> length (takeWhile P s) \<longleftrightarrow> (\<exists>body suf. s = body @ suf \<and> n \<le> length body \<and> (\<forall>c \<in> set body. P c))"
proof
  assume "n \<le> length (takeWhile P s)"
  then have "s = takeWhile P s @ dropWhile P s \<and> n \<le> length (takeWhile P s) \<and> (\<forall>c \<in> set (takeWhile P s). P c)"
    by (auto dest: set_takeWhileD)
  then show "\<exists>body suf. s = body @ suf \<and> n \<le> length body \<and> (\<forall>c \<in> set body. P c)" by blast
next
  assume "\<exists>body suf. s = body @ suf \<and> n \<le> length body \<and> (\<forall>c \<in> set body. P c)"
  then obtain body suf where h: "s = body @ suf" "n \<le> length body" "\<forall>c \<in> set body. P c" by blast
  then have "takeWhile P s = body @ takeWhile P suf" by (simp add: takeWhile_append2)
  with h show "n \<le> length (takeWhile P s)" by simp
qed

lemma sei_here_iff:
  "sei_here s \<noteq> None \<longleftrightarrow>
     (\<exists>body suf. s = ''sei1'' @ body @ suf \<and> 38 \<le> length body \<and> (\<forall>c \<in> set body. is_sei_char c))"
proof -
  have lit: "take 4 s = ''sei1'' \<longleftrightarrow> (\<exists>r. s = ''sei1'' @ r)"
    using literal_prefix[of "''sei1''" s] by (simp add: eval_nat_numeral)
  have "sei_here s \<noteq> None \<longleftrightarrow> take 4 s = ''sei1'' \<and> 38 \<le> length (takeWhile is_sei_char (drop 4 s))"
    by (simp add: sei_here_def)
  also have "\<dots> \<longleftrightarrow> (\<exists>r. s = ''sei1'' @ r \<and> 38 \<le> length (takeWhile is_sei_char r))"
    unfolding lit by auto
  also have "\<dots> \<longleftrightarrow> (\<exists>body suf. s = ''sei1'' @ body @ suf \<and> 38 \<le> length body \<and> (\<forall>c \<in> set body. is_sei_char c))"
    unfolding takeWhile_run by blast
  finally show ?thesis .
qed

lemma evm_here_iff:
  "evm_here s \<noteq> None \<longleftrightarrow>
     (\<exists>body suf. s = ''0x'' @ body @ suf \<and> length body = 40 \<and> (\<forall>c \<in> set body. is_hex_char c))"
proof -
  have lit: "take 2 s = ''0x'' \<longleftrightarrow> (\<exists>r. s = ''0x'' @ r)"
    using literal_prefix[of "''0x''" s] by (simp add: eval_nat_numeral)
  have "evm_here s \<noteq> None \<longleftrightarrow> take 2 s = ''0x'' \<and> 40 \<le> length (takeWhile is_hex_char (drop 2 s))"
    by (simp add: evm_here_def)
  also have "\<dots> \<longleftrightarrow> (\<exists>r. s = ''0x'' @ r \<and> 40 \<le> length (takeWhile is_hex_char r))"
    unfolding lit by auto
  also have "\<dots> \<longleftrightarrow> (\<exists>body suf. s = ''0x'' @ body @ suf \<and> 40 \<le> length body \<and> (\<forall>c \<in> set body. is_hex_char c))"
    unfolding takeWhile_run by blast
  also have "\<dots> \<longleftrightarrow> (\<exists>body suf. s = ''0x'' @ body @ suf \<and> length body = 40 \<and> (\<forall>c \<in> set body. is_hex_char c))"
  proof
    assume "\<exists>body suf. s = ''0x'' @ body @ suf \<and> 40 \<le> length body \<and> (\<forall>c \<in> set body. is_hex_char c)"
    then obtain body suf where h: "s = ''0x'' @ body @ suf" "40 \<le> length body" "\<forall>c \<in> set body. is_hex_char c"
      by blast
    have "s = ''0x'' @ take 40 body @ (drop 40 body @ suf)" using h(1) by simp
    moreover have "length (take 40 body) = 40" using h(2) by simp
    moreover have "\<forall>c \<in> set (take 40 body). is_hex_char c" using h(3) by (auto dest: in_set_takeD)
    ultimately show "\<exists>body suf. s = ''0x'' @ body @ suf \<and> length body = 40 \<and> (\<forall>c \<in> set body. is_hex_char c)"
      by blast
  next
    assume "\<exists>body suf. s = ''0x'' @ body @ suf \<and> length body = 40 \<and> (\<forall>c \<in> set body. is_hex_char c)"
    then show "\<exists>body suf. s = ''0x'' @ body @ suf \<and> 40 \<le> length body \<and> (\<forall>c \<in> set body. is_hex_char c)"
      by force
  qed
  finally show ?thesis .
qed


lemma contains_sei_address_iff: "contains_sei_address q \<longleftrightarrow> regex_search sei_here q \<noteq> None"
  unfolding contains_sei_address_def regex_search_iff sei_here_iff by blast

lemma contains_evm_address_iff: "contains_evm_address q \<longleftrightarrow> regex_search evm_here q \<noteq> None"
  unfolding contains_evm_address_def regex_search_iff evm_here_iff by blast

lemma sei_here_result:
  "sei_here s = Some a \<Longrightarrow> take 4 a = ''sei1'' \<and> 42 \<le> length a \<and> length a \<le> 62"
  by (auto simp: sei_here_def split: if_splits)

lemma evm_here_result:
  "evm_here s = Some a \<Longrightarrow> take 2 a = ''0x'' \<and> length a = 42"
proof -
  assume h: "evm_here s = Some a"
  then have a: "a = ''0x'' @ take 40 (drop 2 s)" and l: "40 \<le> length (takeWhile is_hex_char (drop 2 s))"
    by (auto simp: evm_here_def split: if_splits)
  have "length (takeWhile is_hex_char (drop 2 s)) \<le> length (drop 2 s)"
    by (rule length_takeWhile_le)
  with l have "40 \<le> length (drop 2 s)" by linarith
  then have "length (take 40 (drop 2 s)) = 40" by simp
  with a show ?thesis by simp
qed

lemma regex_search_leftmost:
  "regex_search here q = Some m \<Longrightarrow>
     \<exists>pre rest. q = pre @ rest \<and> here rest = Some m \<and>
       (\<forall>pre' r. q = pre' @ r \<and> length pre' < length pre \<longrightarrow> here r = None)"
proof (induction q)
  case Nil
  then have "[] = [] @ [] \<and> here [] = Some m \<and>
       (\<forall>pre' r. [] = pre' @ r \<and> length pre' < length ([]::string) \<longrightarrow> here r = None)"
    by simp
  then show ?case by (intro exI)
next
  case (Cons c cs)
  show ?case
  proof (cases "here (c # cs)")
    case (Some a)
    with Cons.prems have "c # cs = [] @ (c # cs) \<and> here (c # cs) = Some m \<and>
       (\<forall>pre' r. c # cs = pre' @ r \<and> length pre' < length ([]::string) \<longrightarrow> here r = None)"
      by simp
    then show ?thesis by (intro exI)
  next
    case None
    with Cons.prems have "regex_search here cs = Some m" by simp
    from Cons.IH[OF this] obtain pre rest where ih: "cs = pre @ rest" "here rest = Some m"
      "\<forall>pre' r. cs = pre' @ r \<and> length pre' < length pre \<longrightarrow> here r = None"
      by (elim exE conjE)
    have "\<forall>pre' r. c # cs = pre' @ r \<and> length pre' < length (c # pre) \<longrightarrow> here r = None"
    proof (intro allI impI)
      fix pre' r
      assume h: "c # cs = pre' @ r \<and> length pre' < length (c # pre)"
      show "here r = None"
      proof (cases pre')
        case Nil
        with h have "r = c # cs" by simp
        with None show ?thesis by simp
      next
        case (Cons d pre'')
        with h have "cs = pre'' @ r \<and> length pre'' < length pre" by simp
        with ih(3) show ?thesis by (elim allE impE) assumption+
      qed
    qed
    with ih(1,2) have "c # cs = (c # pre) @ rest \<and> here rest = Some m \<and>
       (\<forall>pre' r. c # cs = pre' @ r \<and> length pre' < length (c # pre) \<longrightarrow> here r = None)"
      by simp
    then show ?thesis by (intro exI)
  qed
qed

lemma sei_address_here_iff: "sei_address_here r \<longleftrightarrow> sei_here r \<noteq> None"
  by (simp only: sei_address_here_def sei_here_iff)

lemma evm_address_here_iff: "evm_address_here r \<longleftrightarrow> evm_here r \<noteq> None"
  by (simp only: evm_address_here_def evm_here_iff)

lemma sei_here_shape:
  assumes "sei_here rest = Some a"
  shows "\<exists>body suf. rest = ''sei1'' @ body @ suf \<and> a = ''sei1'' @ body \<and>
           38 \<le> length body \<and> length body \<le> 58 \<and> (\<forall>c \<in> set body. is_sei_char c) \<and>
           (length body = 58 \<or> (case suf of [] \<Rightarrow> True | c # cs \<Rightarrow> \<not> is_sei_char c))"
proof -
  define run where "run = takeWhile is_sei_char (drop 4 rest)"
  define after where "after = dropWhile is_sei_char (drop 4 rest)"
  from assms have a: "a = ''sei1'' @ take 58 run" and t: "take 4 rest = ''sei1''" and l: "38 \<le> length run"
    by (auto simp: sei_here_def run_def split: if_splits)
  have r1: "take 4 rest @ drop 4 rest = rest" by (rule append_take_drop_id)
  have r2: "run @ after = drop 4 rest" unfolding run_def after_def by (rule takeWhile_dropWhile_id)
  have r3: "take 58 run @ drop 58 run = run" by (rule append_take_drop_id)
  have "rest = ''sei1'' @ ((take 58 run @ drop 58 run) @ after)"
    unfolding r3 r2 using r1 t by simp
  then have r: "rest = ''sei1'' @ take 58 run @ (drop 58 run @ after)"
    by (simp only: append_assoc)
  have "\<forall>c \<in> set run. is_sei_char c" unfolding run_def by (auto dest: set_takeWhileD)
  then have cls: "\<forall>c \<in> set (take 58 run). is_sei_char c" by (auto dest: in_set_takeD)
  have len: "38 \<le> length (take 58 run)" "length (take 58 run) \<le> 58" using l by simp_all
  have greedy: "length (take 58 run) = 58 \<or>
      (case drop 58 run @ after of [] \<Rightarrow> True | c # cs \<Rightarrow> \<not> is_sei_char c)"
  proof (cases "58 \<le> length run")
    case True
    then show ?thesis by simp
  next
    case False
    then have d: "drop 58 run = []" by simp
    have "case after of [] \<Rightarrow> True | c # cs \<Rightarrow> \<not> is_sei_char c"
    proof (cases after)
      case Nil
      show ?thesis unfolding Nil by simp
    next
      case (Cons c cs)
      then have "dropWhile is_sei_char (drop 4 rest) \<noteq> []" unfolding after_def by simp
      then have "\<not> is_sei_char (hd (dropWhile is_sei_char (drop 4 rest)))" by (rule hd_dropWhile)
      then have "\<not> is_sei_char (hd after)" unfolding after_def .
      then show ?thesis unfolding Cons by simp
    qed
    then show ?thesis unfolding d by simp
  qed
  show ?thesis
  proof (intro exI conjI)
    show "rest = ''sei1'' @ take 58 run @ (drop 58 run @ after)" by (rule r)
    show "a = ''sei1'' @ take 58 run" by (rule a)
    show "38 \<le> length (take 58 run)" by (rule len(1))
    show "length (take 58 run) \<le> 58" by (rule len(2))
    show "\<forall>c \<in> set (take 58 run). is_sei_char c" by (rule cls)
    show "length (take 58 run) = 58 \<or>
      (case drop 58 run @ after of [] \<Rightarrow> True | c # cs \<Rightarrow> \<not> is_sei_char c)" by (rule greedy)
  qed
qed

lemma evm_here_shape:
  assumes "evm_here rest = Some a"
  shows "\<exists>body suf. rest = ''0x'' @ body @ suf \<and> a = ''0x'' @ body \<and>
           length body = 40 \<and> (\<forall>c \<in> set body. is_hex_char c)"
proof -
  define run where "run = takeWhile is_hex_char (drop 2 rest)"
  define after where "after = dropWhile is_hex_char (drop 2 rest)"
  from assms have a: "a = ''0x'' @ take 40 (drop 2 rest)" and t: "take 2 rest = ''0x''" and l: "40 \<le> length run"
    by (auto simp: evm_here_def run_def split: if_splits)
  have r1: "take 2 rest @ drop 2 rest = rest" by (rule append_take_drop_id)
  have r2: "run @ after = drop 2 rest" unfolding run_def after_def by (rule takeWhile_dropWhile_id)
  have r3: "take 40 (drop 2 rest) @ drop 40 (drop 2 rest) = drop 2 rest" by (rule append_take_drop_id)
  have r: "rest = ''0x'' @ take 40 (drop 2 rest) @ drop 40 (drop 2 rest)"
    unfolding r3 using r1 t by simp
  have "take 40 (run @ after) = take 40 run" using l by simp
  then have tk: "take 40 (drop 2 rest) = take 40 run" unfolding r2 .
  have "length (take 40 run) = 40" using l by simp
  then have len: "length (take 40 (drop 2 rest)) = 40" unfolding tk .
  have "\<forall>c \<in> set run. is_hex_char c" unfolding run_def by (auto dest: set_takeWhileD)
  then have "\<forall>c \<in> set (take 40 run). is_hex_char c" by (auto dest: in_set_takeD)
  then have cls: "\<forall>c \<in> set (take 40 (drop 2 rest)). is_hex_char c" unfolding tk .
  show ?thesis
  proof (intro exI conjI)
    show "rest = ''0x'' @ take 40 (drop 2 rest) @ drop 40 (drop 2 rest)" by (rule r)
    show "a = ''0x'' @ take 40 (drop 2 rest)" by (rule a)
    show "length (take 40 (drop 2 rest)) = 40" by (rule len)
    show "\<forall>c \<in> set (take 40 (drop 2 rest)). is_hex_char c" by (rule cls)
  qed
qed


lemma longer_run_continues:
  assumes eq: "body @ suf = body' @ suf'" and lt: "length body < length body'"
  shows "\<exists>c cs. suf = c # cs \<and> c \<in> set body'"
proof -
  define x where "x = drop (length body) body'"
  have "drop (length body) (body @ suf) = drop (length body) (body' @ suf')" by (simp only: eq)
  then have s: "suf = x @ suf'" using lt by (simp add: x_def)
  have "x \<noteq> []" using lt by (simp add: x_def)
  then obtain c cs where x: "x = c # cs" by (cases x) simp_all
  have "c \<in> set x" by (simp add: x)
  then have "c \<in> set body'" unfolding x_def by (rule in_set_dropD)
  with s x show ?thesis by simp
qed

lemma greedy_run_unique:
  assumes eq: "body @ suf = body' @ suf'"
    and cls: "\<forall>c \<in> set body. P c" "\<forall>c \<in> set body'. P c"
    and bound: "length body \<le> n" "length body' \<le> n"
    and greedy: "length body = n \<or> (case suf of [] \<Rightarrow> True | c # cs \<Rightarrow> \<not> P c)"
      "length body' = n \<or> (case suf' of [] \<Rightarrow> True | c # cs \<Rightarrow> \<not> P c)"
  shows "body = body'"
proof -
  have a: "\<not> length body < length body'"
  proof
    assume lt: "length body < length body'"
    from longer_run_continues[OF eq lt] obtain c cs where s: "suf = c # cs" "c \<in> set body'"
      by (elim exE conjE)
    from lt bound(2) have "length body \<noteq> n" by simp
    with greedy(1) s(1) have "\<not> P c" by simp
    with cls(2) s(2) show False by simp
  qed
  have b: "\<not> length body' < length body"
  proof
    assume lt: "length body' < length body"
    from longer_run_continues[OF eq[symmetric] lt] obtain c cs where s: "suf' = c # cs" "c \<in> set body"
      by (elim exE conjE)
    from lt bound(1) have "length body' \<noteq> n" by simp
    with greedy(2) s(1) have "\<not> P c" by simp
    with cls(1) s(2) show False by simp
  qed
  from a b have "length body = length body'" by simp
  with eq show ?thesis by simp
qed

lemma leftmost_position_unique:
  assumes eq: "pre @ r = pre' @ r'"
    and here: "H r" "H r'"
    and left: "\<forall>p x. pre @ r = p @ x \<and> length p < length pre \<longrightarrow> \<not> H x"
      "\<forall>p x. pre @ r = p @ x \<and> length p < length pre' \<longrightarrow> \<not> H x"
  shows "pre = pre' \<and> r = r'"
proof -
  have a: "\<not> length pre < length pre'"
  proof
    assume "length pre < length pre'"
    then have "pre @ r = pre @ r \<and> length pre < length pre'" by simp
    with left(2) have "\<not> H r" by (elim allE impE) assumption+
    with here(1) show False by simp
  qed
  have b: "\<not> length pre' < length pre"
  proof
    assume "length pre' < length pre"
    with eq have "pre @ r = pre' @ r' \<and> length pre' < length pre" by simp
    with left(1) have "\<not> H r'" by (elim allE impE) assumption+
    with here(2) show False by simp
  qed
  from a b have "length pre = length pre'" by simp
  with eq show ?thesis by simp
qed

text \<open>The two descriptions determine the address: at most one text fits each.\<close>

lemma leftmost_sei_address_unique:
  assumes "leftmost_sei_address q a" and "leftmost_sei_address q b"
  shows "a = b"
proof -
  from assms(1) obtain pre body suf where 1:
    "q = pre @ ''sei1'' @ body @ suf" "a = ''sei1'' @ body"
    "38 \<le> length body" "length body \<le> 58" "\<forall>c \<in> set body. is_sei_char c"
    "length body = 58 \<or> (case suf of [] \<Rightarrow> True | c # cs \<Rightarrow> \<not> is_sei_char c)"
    "\<forall>pre' r. q = pre' @ r \<and> length pre' < length pre \<longrightarrow> \<not> sei_address_here r"
    unfolding leftmost_sei_address_def by (elim exE conjE)
  from assms(2) obtain pre' body' suf' where 2:
    "q = pre' @ ''sei1'' @ body' @ suf'" "b = ''sei1'' @ body'"
    "38 \<le> length body'" "length body' \<le> 58" "\<forall>c \<in> set body'. is_sei_char c"
    "length body' = 58 \<or> (case suf' of [] \<Rightarrow> True | c # cs \<Rightarrow> \<not> is_sei_char c)"
    "\<forall>p r. q = p @ r \<and> length p < length pre' \<longrightarrow> \<not> sei_address_here r"
    unfolding leftmost_sei_address_def by (elim exE conjE)
  have h1: "sei_address_here (''sei1'' @ body @ suf)"
    unfolding sei_address_here_def using 1(3,5) by (intro exI conjI) (rule refl, assumption+)
  have h2: "sei_address_here (''sei1'' @ body' @ suf')"
    unfolding sei_address_here_def using 2(3,5) by (intro exI conjI) (rule refl, assumption+)
  have eq: "pre @ (''sei1'' @ body @ suf) = pre' @ (''sei1'' @ body' @ suf')"
    using 1(1) 2(1) by simp
  from leftmost_position_unique[of pre "''sei1'' @ body @ suf" pre' "''sei1'' @ body' @ suf'"
         sei_address_here, OF eq h1 h2] 1(7) 2(7) 1(1)
  have "''sei1'' @ body @ suf = ''sei1'' @ body' @ suf'" by simp
  then have "body @ suf = body' @ suf'" by simp
  from greedy_run_unique[OF this 1(5) 2(5) 1(4) 2(4) 1(6) 2(6)] 1(2) 2(2) show ?thesis by simp
qed

lemma leftmost_evm_address_unique:
  assumes "leftmost_evm_address q a" and "leftmost_evm_address q b"
  shows "a = b"
proof -
  from assms(1) obtain pre body suf where 1:
    "q = pre @ ''0x'' @ body @ suf" "a = ''0x'' @ body"
    "length body = 40" "\<forall>c \<in> set body. is_hex_char c"
    "\<forall>pre' r. q = pre' @ r \<and> length pre' < length pre \<longrightarrow> \<not> evm_address_here r"
    unfolding leftmost_evm_address_def by (elim exE conjE)
  from assms(2) obtain pre' body' suf' where 2:
    "q = pre' @ ''0x'' @ body' @ suf'" "b = ''0x'' @ body'"
    "length body' = 40" "\<forall>c \<in> set body'. is_hex_char c"
    "\<forall>p r. q = p @ r \<and> length p < length pre' \<longrightarrow> \<not> evm_address_here r"
    unfolding leftmost_evm_address_def by (elim exE conjE)
  have h1: "evm_address_here (''0x'' @ body @ suf)"
    unfolding evm_address_here_def using 1(3,4) by (intro exI conjI) (rule refl, assumption+)
  have h2: "evm_address_here (''0x'' @ body' @ suf')"
    unfolding evm_address_here_def using 2(3,4) by (intro exI conjI) (rule refl, assumption+)
  have eq: "pre @ (''0x'' @ body @ suf) = pre' @ (''0x'' @ body' @ suf')"
    using 1(1) 2(1) by simp
  from leftmost_position_unique[of pre "''0x'' @ body @ suf" pre' "''0x'' @ body' @ suf'"
         evm_address_here, OF eq h1 h2] 1(5) 2(5) 1(1)
  have "''0x'' @ body @ suf = ''0x'' @ body' @ suf'" by simp
  then have "body @ suf = body' @ suf'" by simp
  with 1(3) 2(3) have "body = body'" by simp
  with 1(2) 2(2) show ?thesis by simp
qed

text \<open>
  Claim C7, as the code has it. The \<^verbatim>\<open>sei1\<close> pattern is tried first and the \<^verbatim>\<open>0x\<close>
  pattern second, and the first pattern that matches decides. A query that contains a
  \<^verbatim>\<open>sei1\<close> address yields the \<^verbatim>\<open>sei1\<close> address: the leftmost one, \<^verbatim>\<open>sei1\<close> with
  the 38 to 58 characters of \<^verbatim>\<open>[a-z0-9]\<close> that follow it, as many as there are;
  this is so whether or not the query also contains a \<^verbatim>\<open>0x\<close> address. A query that
  contains a \<^verbatim>\<open>0x\<close> address and no \<^verbatim>\<open>sei1\<close> address yields the leftmost \<^verbatim>\<open>0x\<close>
  address, \<^verbatim>\<open>0x\<close> with its 40 hexadecimal digits. A query with neither yields the
  not-found value.
\<close>

theorem extractWalletAddress_sei_first:
  "(contains_sei_address q \<longrightarrow>
      (\<exists>a. extractWalletAddress q = Some a \<and> leftmost_sei_address q a))
   \<and> (\<not> contains_sei_address q \<and> contains_evm_address q \<longrightarrow>
      (\<exists>a. extractWalletAddress q = Some a \<and> leftmost_evm_address q a))
   \<and> (\<not> contains_sei_address q \<and> \<not> contains_evm_address q \<longrightarrow> extractWalletAddress q = None)"
proof (intro conjI impI)
  assume "contains_sei_address q"
  then obtain a where a: "regex_search sei_here q = Some a"
    by (auto simp: contains_sei_address_iff)
  from regex_search_leftmost[OF a] obtain pre rest where r: "q = pre @ rest" "sei_here rest = Some a"
    "\<forall>pre' r. q = pre' @ r \<and> length pre' < length pre \<longrightarrow> sei_here r = None"
    by (elim exE conjE)
  from sei_here_shape[OF r(2)] obtain body suf where s:
    "rest = ''sei1'' @ body @ suf" "a = ''sei1'' @ body"
    "38 \<le> length body" "length body \<le> 58" "\<forall>c \<in> set body. is_sei_char c"
    "length body = 58 \<or> (case suf of [] \<Rightarrow> True | c # cs \<Rightarrow> \<not> is_sei_char c)"
    by (elim exE conjE)
  have left: "\<forall>pre' r. q = pre' @ r \<and> length pre' < length pre \<longrightarrow> \<not> sei_address_here r"
    using r(3) by (simp add: sei_address_here_iff)
  have q: "q = pre @ ''sei1'' @ body @ suf" using r(1) s(1) by simp
  have "leftmost_sei_address q a"
    unfolding leftmost_sei_address_def
  proof (intro exI conjI)
    show "q = pre @ ''sei1'' @ body @ suf" by (rule q)
    show "a = ''sei1'' @ body" by (rule s(2))
    show "38 \<le> length body" by (rule s(3))
    show "length body \<le> 58" by (rule s(4))
    show "\<forall>c \<in> set body. is_sei_char c" by (rule s(5))
    show "length body = 58 \<or> (case suf of [] \<Rightarrow> True | c # cs \<Rightarrow> \<not> is_sei_char c)" by (rule s(6))
    show "\<forall>pre' r. q = pre' @ r \<and> length pre' < length pre \<longrightarrow> \<not> sei_address_here r" by (rule left)
  qed
  moreover have "extractWalletAddress q = Some a" using a by (simp add: extractWalletAddress_def)
  ultimately show "\<exists>a. extractWalletAddress q = Some a \<and> leftmost_sei_address q a"
    by (intro exI conjI)
next
  assume h: "\<not> contains_sei_address q \<and> contains_evm_address q"
  then have n: "regex_search sei_here q = None" by (simp add: contains_sei_address_iff)
  from h obtain a where a: "regex_search evm_here q = Some a"
    by (auto simp: contains_evm_address_iff)
  from regex_search_leftmost[OF a] obtain pre rest where r: "q = pre @ rest" "evm_here rest = Some a"
    "\<forall>pre' r. q = pre' @ r \<and> length pre' < length pre \<longrightarrow> evm_here r = None"
    by (elim exE conjE)
  from evm_here_shape[OF r(2)] obtain body suf where s:
    "rest = ''0x'' @ body @ suf" "a = ''0x'' @ body"
    "length body = 40" "\<forall>c \<in> set body. is_hex_char c"
    by (elim exE conjE)
  have left: "\<forall>pre' r. q = pre' @ r \<and> length pre' < length pre \<longrightarrow> \<not> evm_address_here r"
    using r(3) by (simp add: evm_address_here_iff)
  have q: "q = pre @ ''0x'' @ body @ suf" using r(1) s(1) by simp
  have "leftmost_evm_address q a"
    unfolding leftmost_evm_address_def
  proof (intro exI conjI)
    show "q = pre @ ''0x'' @ body @ suf" by (rule q)
    show "a = ''0x'' @ body" by (rule s(2))
    show "length body = 40" by (rule s(3))
    show "\<forall>c \<in> set body. is_hex_char c" by (rule s(4))
    show "\<forall>pre' r. q = pre' @ r \<and> length pre' < length pre \<longrightarrow> \<not> evm_address_here r" by (rule left)
  qed
  moreover have "extractWalletAddress q = Some a" using a n by (simp add: extractWalletAddress_def)
  ultimately show "\<exists>a. extractWalletAddress q = Some a \<and> leftmost_evm_address q a"
    by (intro exI conjI)
next
  assume "\<not> contains_sei_address q \<and> \<not> contains_evm_address q"
  then show "extractWalletAddress q = None"
    by (simp add: contains_sei_address_iff contains_evm_address_iff extractWalletAddress_def)
qed

text \<open>
  Claim C7 as stated (the \<^verbatim>\<open>0x\<close> pattern first) fails: in a query that has a \<^verbatim>\<open>0x\<close>
  address followed by a \<^verbatim>\<open>sei1\<close> address, the \<^verbatim>\<open>sei1\<close> address is returned, not
  the \<^verbatim>\<open>0x\<close> one.
\<close>

theorem extractWalletAddress_hex_first_counterexample:
  "extractWalletAddress (''from 0x'' @ replicate 40 (CHR ''a'') @ '' to sei1'' @ replicate 38 (CHR ''q''))
     = Some (''sei1'' @ replicate 38 (CHR ''q''))
   \<and> extractWalletAddress (''from 0x'' @ replicate 40 (CHR ''a'') @ '' to sei1'' @ replicate 38 (CHR ''q''))
     \<noteq> Some (''0x'' @ replicate 40 (CHR ''a''))"
  by code_simp

lemma both_addresses_found:
  "regex_search sei_here (''from 0x'' @ replicate 40 (CHR ''a'') @ '' to sei1'' @ replicate 38 (CHR ''q'')) \<noteq> None"
  "regex_search evm_here (''from 0x'' @ replicate 40 (CHR ''a'') @ '' to sei1'' @ replicate 38 (CHR ''q'')) \<noteq> None"
  by code_simp+

lemma only_evm_found:
  "regex_search sei_here (''from 0x'' @ replicate 40 (CHR ''a'')) = None"
  "regex_search evm_here (''from 0x'' @ replicate 40 (CHR ''a'')) \<noteq> None"
  by code_simp+

lemma nothing_found:
  "regex_search sei_here ''what is my balance'' = None"
  "regex_search evm_here ''what is my balance'' = None"
  by code_simp+

lemma example_addresses_extracted:
  "extractWalletAddress (''from 0x'' @ replicate 40 (CHR ''a'') @ '' to sei1'' @ replicate 38 (CHR ''q''))
     = Some (''sei1'' @ replicate 38 (CHR ''q''))"
  "extractWalletAddress (''from 0x'' @ replicate 40 (CHR ''a'')) = Some (''0x'' @ replicate 40 (CHR ''a''))"
  "extractWalletAddress (''balance of sei1'' @ replicate 40 (CHR ''q'')) = Some (''sei1'' @ replicate 40 (CHR ''q''))"
  by code_simp+

theorem extractWalletAddress_sei_first_witness:
  "contains_sei_address (''from 0x'' @ replicate 40 (CHR ''a'') @ '' to sei1'' @ replicate 38 (CHR ''q''))
   \<and> contains_evm_address (''from 0x'' @ replicate 40 (CHR ''a'') @ '' to sei1'' @ replicate 38 (CHR ''q''))
   \<and> extractWalletAddress (''from 0x'' @ replicate 40 (CHR ''a'') @ '' to sei1'' @ replicate 38 (CHR ''q''))
        = Some (''sei1'' @ replicate 38 (CHR ''q''))
   \<and> leftmost_sei_address (''from 0x'' @ replicate 40 (CHR ''a'') @ '' to sei1'' @ replicate 38 (CHR ''q''))
        (''sei1'' @ replicate 38 (CHR ''q''))
   \<and> \<not> contains_sei_address (''from 0x'' @ replicate 40 (CHR ''a''))
   \<and> contains_evm_address (''from 0x'' @ replicate 40 (CHR ''a''))
   \<and> extractWalletAddress (''from 0x'' @ replicate 40 (CHR ''a'')) = Some (''0x'' @ replicate 40 (CHR ''a''))
   \<and> leftmost_evm_address (''from 0x'' @ replicate 40 (CHR ''a'')) (''0x'' @ replicate 40 (CHR ''a''))
   \<and> \<not> contains_sei_address ''what is my balance''
   \<and> \<not> contains_evm_address ''what is my balance''
   \<and> extractWalletAddress ''what is my balance'' = None"
proof -
  let ?both = "''from 0x'' @ replicate 40 (CHR ''a'') @ '' to sei1'' @ replicate 38 (CHR ''q'')"
  let ?evm = "''from 0x'' @ replicate 40 (CHR ''a'')"
  have c1: "contains_sei_address ?both" and c2: "contains_evm_address ?both"
    using both_addresses_found by (simp_all only: contains_sei_address_iff contains_evm_address_iff simp_thms)
  have c3: "\<not> contains_sei_address ?evm" and c4: "contains_evm_address ?evm"
    using only_evm_found by (simp_all only: contains_sei_address_iff contains_evm_address_iff simp_thms)
  have c5: "\<not> contains_sei_address ''what is my balance''"
    and c6: "\<not> contains_evm_address ''what is my balance''"
    using nothing_found by (simp_all only: contains_sei_address_iff contains_evm_address_iff simp_thms)
  note t1 = extractWalletAddress_sei_first[of ?both, THEN conjunct1, THEN mp, OF c1]
  then obtain a where a: "extractWalletAddress ?both = Some a" "leftmost_sei_address ?both a"
    by (elim exE conjE)
  have "Some a = Some (''sei1'' @ replicate 38 (CHR ''q''))"
    by (rule trans[OF a(1)[symmetric] example_addresses_extracted(1)])
  then have "a = ''sei1'' @ replicate 38 (CHR ''q'')" by (simp only: option.inject)
  with a(2) have l1: "leftmost_sei_address ?both (''sei1'' @ replicate 38 (CHR ''q''))" by (simp only:)
  note t2 = extractWalletAddress_sei_first[of ?evm, THEN conjunct2, THEN conjunct1, THEN mp, OF conjI[OF c3 c4]]
  then obtain b where b: "extractWalletAddress ?evm = Some b" "leftmost_evm_address ?evm b"
    by (elim exE conjE)
  have "Some b = Some (''0x'' @ replicate 40 (CHR ''a''))"
    by (rule trans[OF b(1)[symmetric] example_addresses_extracted(2)])
  then have "b = ''0x'' @ replicate 40 (CHR ''a'')" by (simp only: option.inject)
  with b(2) have l2: "leftmost_evm_address ?evm (''0x'' @ replicate 40 (CHR ''a''))" by (simp only:)
  note l3 = extractWalletAddress_sei_first[of "''what is my balance''", THEN conjunct2, THEN conjunct2,
      THEN mp, OF conjI[OF c5 c6]]
  from c1 c2 c3 c4 c5 c6 l1 l2 l3 example_addresses_extracted(1,2) show ?thesis
    by (intro conjI)
qed

section \<open>Gateway client: what reaches the Transport\<close>

text \<open>\<^verbatim>\<open>ensureConnected\<close> leaves the cache, the rate limiter and the request log alone.\<close>

lemma ensureConnected_frame:
  "ensureConnected now reply s = (out, s') \<Longrightarrow>
     dispatched s' = dispatched s \<and> cache s' = cache s \<and> rateLimiter s' = rateLimiter s \<and> config s' = config s"
  by (auto simp: ensureConnected_def ensureConnected_call_def connect_start_def connect_finish_def
        ensureConnected_resume_def Let_def
      split: if_splits option.splits promise.splits sum.splits prod.splits suspension.splits)

text \<open>
  Without a cache key, a call that returns a result has called the Transport's
  \<^verbatim>\<open>request\<close> exactly once and has not touched the cache.
\<close>

lemma dispatch_without_key:
  assumes "dispatch operation params None e s = (Returns v, s')"
  shows "dispatched s' = dispatched s @ [(operation, params)] \<and> cache s' = cache s"
proof -
  obtain ok rl where c: "canMakeRequest (clock_check e) (rateLimiter s) = (ok, rl)"
    by (cases "canMakeRequest (clock_check e) (rateLimiter s)")
  let ?s2 = "s\<lparr> rateLimiter := recordRequest (clock_record e) rl \<rparr>"
  obtain out s3 where ec: "ensureConnected (clock_session e) (health_reply e) ?s2 = (out, s3)"
    by (cases "ensureConnected (clock_session e) (health_reply e) ?s2")
  from ensureConnected_frame[OF ec] have fr: "dispatched s3 = dispatched s" "cache s3 = cache s"
    by simp_all
  from assms c ec fr show ?thesis
    by (auto simp: dispatch_def cache_key_given_def Let_def
        split: if_splits option.splits outcome.splits sum.splits)
qed

lemma makeRequest_without_key:
  "makeRequest operation params None e s = dispatch operation params None e s"
  by (simp add: makeRequest_def cache_key_given_def)

text \<open>
  Claim C1, as the code has it. \<^verbatim>\<open>getWalletBalance\<close> and \<^verbatim>\<open>transferSei\<close> both call
  \<^verbatim>\<open>makeRequest\<close> without a cache key, so neither is ever served from the cache: when
  two identical balance calls in a row return a result, each of them has called the
  Transport's \<^verbatim>\<open>request\<close>, and the cache is as it was; the same holds for two
  identical native transfers. This holds for every client state and every clock, in
  particular inside the cache TTL.
\<close>

theorem no_operation_served_from_cache:
  "(getWalletBalance address network e1 s = (Returns v1, s1) \<and>
    getWalletBalance address network e2 s1 = (Returns v2, s2) \<longrightarrow>
      dispatched s2 = dispatched s @
        [(''get_balance'', JObj [(''address'', JStr address), (''network'', JStr (network_or_default network))]),
         (''get_balance'', JObj [(''address'', JStr address), (''network'', JStr (network_or_default network))])]
      \<and> cache s2 = cache s)
   \<and> (transferSei to amount network e1 s = (Returns v1, s1) \<and>
      transferSei to amount network e2 s1 = (Returns v2, s2) \<longrightarrow>
      dispatched s2 = dispatched s @
        [(''transfer_sei'', JObj [(''to'', JStr to), (''amount'', JStr amount), (''network'', JStr (network_or_default network))]),
         (''transfer_sei'', JObj [(''to'', JStr to), (''amount'', JStr amount), (''network'', JStr (network_or_default network))])]
      \<and> cache s2 = cache s)"
  unfolding getWalletBalance_def transferSei_def makeRequest_without_key
  by (auto dest!: dispatch_without_key)



text \<open>
  Claim C1 as stated (the second identical balance call inside the TTL is served from
  the cache) fails: on a new client with a TTL of 30000 ms, two identical balance
  calls 1000 ms apart both return, and the Transport's \<^verbatim>\<open>request\<close> has been called
  twice.
\<close>

theorem second_balance_call_counterexample:
  "fst first_balance_call = Returns (JStr ''100'')
   \<and> fst second_balance_call = Returns (JStr ''100'')
   \<and> clock_get (healthy_env 1000 (JStr ''100'')) - clock_set (healthy_env 0 (JStr ''100'')) < cacheTTL example_config
   \<and> length (dispatched (snd first_balance_call)) = 1
   \<and> length (dispatched (snd second_balance_call)) = 2"
  by code_simp

lemma example_calls_return:
  "fst first_balance_call = Returns (JStr ''100'')"
  "fst second_balance_call = Returns (JStr ''100'')"
  "fst first_transfer_call = Returns (JStr ''0xabc'')"
  "fst second_transfer_call = Returns (JStr ''0xabc'')"
  by code_simp+

theorem no_operation_served_from_cache_witness:
  "first_balance_call = (Returns (JStr ''100''), snd first_balance_call)
   \<and> second_balance_call = (Returns (JStr ''100''), snd second_balance_call)
   \<and> dispatched (snd second_balance_call) =
        [(''get_balance'', JObj [(''address'', JStr ''sei1w3pmkxgzf6kwqtd4ng2yy0gqtdc63nxntk6nts''), (''network'', JStr ''sei'')]),
         (''get_balance'', JObj [(''address'', JStr ''sei1w3pmkxgzf6kwqtd4ng2yy0gqtdc63nxntk6nts''), (''network'', JStr ''sei'')])]
   \<and> first_transfer_call = (Returns (JStr ''0xabc''), snd first_transfer_call)
   \<and> second_transfer_call = (Returns (JStr ''0xabc''), snd second_transfer_call)
   \<and> dispatched (snd second_transfer_call) =
        [(''transfer_sei'', JObj [(''to'', JStr ''sei1w3pmkxgzf6kwqtd4ng2yy0gqtdc63nxntk6nts''), (''amount'', JStr ''1''), (''network'', JStr ''sei'')]),
         (''transfer_sei'', JObj [(''to'', JStr ''sei1w3pmkxgzf6kwqtd4ng2yy0gqtdc63nxntk6nts''), (''amount'', JStr ''1''), (''network'', JStr ''sei'')])]"
proof -
  have b1: "first_balance_call = (Returns (JStr ''100''), snd first_balance_call)"
    and b2: "second_balance_call = (Returns (JStr ''100''), snd second_balance_call)"
    and t1: "first_transfer_call = (Returns (JStr ''0xabc''), snd first_transfer_call)"
    and t2: "second_transfer_call = (Returns (JStr ''0xabc''), snd second_transfer_call)"
    using example_calls_return by (simp_all add: prod_eq_iff)
  have d0: "dispatched (new_SeiMCPClient example_config) = []"
    by (simp add: new_SeiMCPClient_def)
  note thm1 = no_operation_served_from_cache[of
      "''sei1w3pmkxgzf6kwqtd4ng2yy0gqtdc63nxntk6nts''" None "healthy_env 0 (JStr ''100'')"
      "new_SeiMCPClient example_config" "JStr ''100''" "snd first_balance_call"
      "healthy_env 1000 (JStr ''100'')" "JStr ''100''" "snd second_balance_call"]
  note thm2 = no_operation_served_from_cache[where network = None
      and ?e1.0 = "healthy_env 0 (JStr ''0xabc'')" and s = "new_SeiMCPClient example_config"
      and ?v1.0 = "JStr ''0xabc''" and ?s1.0 = "snd first_transfer_call"
      and ?e2.0 = "healthy_env 1000 (JStr ''0xabc'')" and ?v2.0 = "JStr ''0xabc''"
      and ?s2.0 = "snd second_transfer_call"
      and to = "''sei1w3pmkxgzf6kwqtd4ng2yy0gqtdc63nxntk6nts''" and amount = "''1''"]
  have "dispatched (snd second_balance_call) =
        [(''get_balance'', JObj [(''address'', JStr ''sei1w3pmkxgzf6kwqtd4ng2yy0gqtdc63nxntk6nts''), (''network'', JStr ''sei'')]),
         (''get_balance'', JObj [(''address'', JStr ''sei1w3pmkxgzf6kwqtd4ng2yy0gqtdc63nxntk6nts''), (''network'', JStr ''sei'')])]"
    using thm1 b1 b2 d0
    by (simp add: first_balance_call_def[symmetric] second_balance_call_def[symmetric] network_or_default_def)
  moreover have "dispatched (snd second_transfer_call) =
        [(''transfer_sei'', JObj [(''to'', JStr ''sei1w3pmkxgzf6kwqtd4ng2yy0gqtdc63nxntk6nts''), (''amount'', JStr ''1''), (''network'', JStr ''sei'')]),
         (''transfer_sei'', JObj [(''to'', JStr ''sei1w3pmkxgzf6kwqtd4ng2yy0gqtdc63nxntk6nts''), (''amount'', JStr ''1''), (''network'', JStr ''sei'')])]"
    using thm2 t1 t2 d0
    by (simp add: first_transfer_call_def[symmetric] second_transfer_call_def[symmetric] network_or_default_def)
  ultimately show ?thesis using b1 b2 t1 t2 by simp
qed


section \<open>Gateway client: kinds of failure\<close>
















section \<open>Connection: a failed attempt\<close>

text \<open>
  When the caller that starts an attempt sees it fail, \<^verbatim>\<open>connecting\<close> keeps the
  rejected promise, and from then on every call of \<^verbatim>\<open>ensureConnected\<close> awaits that
  promise and throws its error, whatever the server would answer now.
\<close>

lemma failed_attempt_is_kept:
  assumes "\<not> connected s" and "connecting s = None"
    and "transport_connect now reply (new_HTTPMCPTransport (server_url (config s))) = Inl e"
  shows "\<exists>s'. ensureConnected now reply s = (Throws e, s')
           \<and> connecting s' = Some (length (promises s)) \<and> probes s' = probes s + 1
           \<and> (\<forall>now' reply'. ensureConnected now' reply' s' = (Throws e, s'))"
  using assms
  by (simp add: ensureConnected_def ensureConnected_call_def connect_start_def connect_finish_def
      ensureConnected_resume_def promise_state_def Let_def nth_append)

text \<open>
  Claim C2 on the code. On a new client the first call finds the server unreachable and
  throws; \<^verbatim>\<open>connecting\<close> still holds the rejected promise afterwards. The second call,
  made when the server answers the probe with 200, sends no probe and throws the same
  error; so does a balance request.
\<close>

theorem ensureConnected_keeps_failed_attempt:
  "fst failed_connect = Throws (MCPConnectionError ''Failed to connect to MCP server at http://localhost:3004: fetch failed'')
   \<and> connecting (snd failed_connect) = Some 0
   \<and> probes (snd failed_connect) = 1
   \<and> fst retry_connect = Throws (MCPConnectionError ''Failed to connect to MCP server at http://localhost:3004: fetch failed'')
   \<and> probes (snd retry_connect) = 1
   \<and> connecting (snd retry_connect) = Some 0
   \<and> \<not> connected (snd retry_connect)
   \<and> fst retry_balance_call = Throws (MCPConnectionError ''Failed to connect to MCP server at http://localhost:3004: fetch failed'')
   \<and> probes (snd retry_balance_call) = 1"
  by code_simp

section \<open>Connection: concurrent callers\<close>

lemma run_append: "run (xs @ ys) w = run ys (run xs w)"
  by (induction xs arbitrary: w) simp_all

lemma step_untouched:
  "untouched w \<Longrightarrow> untouched (step ev w) \<or> one_attempt (step ev w)"
proof (cases ev)
  case (Call i)
  assume "untouched w"
  then have "one_attempt (step ev w)"
    using Call
    by (simp add: untouched_def one_attempt_def attempt_pending_def ensureConnected_call_def
        connect_start_def new_HTTPMCPTransport_def)
  then show ?thesis ..
next
  case (ProbeDone p now reply)
  assume "untouched w"
  then have "untouched (step ev w)"
    using ProbeDone by (simp add: untouched_def connect_finish_def promise_state_def)
  then show ?thesis ..
next
  case (Resume i)
  assume "untouched w"
  then have "untouched (step ev w)"
    using Resume by (simp add: untouched_def)
  then show ?thesis ..
qed

lemma find_waiting:
  "find P ws = Some x \<Longrightarrow> x \<in> set ws"
  by (induction ws) (auto split: if_splits)

lemma list_all_remove1: "list_all P xs \<Longrightarrow> list_all P (remove1 x xs)"
  by (induction xs) auto


lemma step_call_pending:
  "attempt_pending w \<Longrightarrow> one_attempt w \<Longrightarrow> one_attempt (step (Call i) w)"
  by (simp add: one_attempt_def attempt_pending_def ensureConnected_call_def)

lemma step_call_succeeded:
  "attempt_succeeded w \<Longrightarrow> one_attempt w \<Longrightarrow> one_attempt (step (Call i) w)"
  by (simp add: one_attempt_def attempt_succeeded_def ensureConnected_call_def)

lemma step_call_failed:
  "attempt_failed e w \<Longrightarrow> one_attempt w \<Longrightarrow> one_attempt (step (Call i) w)"
  by (auto simp: one_attempt_def attempt_failed_def ensureConnected_call_def)


lemma step_probe_pending:
  "attempt_pending w \<Longrightarrow> one_attempt w \<Longrightarrow> one_attempt (step (ProbeDone p now reply) w)"
  by (auto simp: one_attempt_def attempt_pending_def attempt_succeeded_def attempt_failed_def
          connect_finish_def promise_state_def split: sum.splits)

lemma step_probe_succeeded:
  "attempt_succeeded w \<Longrightarrow> one_attempt w \<Longrightarrow> one_attempt (step (ProbeDone p now reply) w)"
  by (auto simp: one_attempt_def attempt_succeeded_def connect_finish_def promise_state_def)

lemma step_probe_failed:
  "attempt_failed e w \<Longrightarrow> one_attempt w \<Longrightarrow> one_attempt (step (ProbeDone p now reply) w)"
  by (auto simp: one_attempt_def attempt_failed_def connect_finish_def promise_state_def)


lemma step_resume_none:
  "find (\<lambda>x. fst x = i) (waiting w) = None \<Longrightarrow> step (Resume i) w = w"
  by simp

lemma step_resume_some:
  "find (\<lambda>x. fst x = i) (waiting w) = Some (j, p, owner) \<Longrightarrow>
   step (Resume i) w =
     (case ensureConnected_resume p owner (client w) of
        (Suspended, s) \<Rightarrow> w
      | (out, s) \<Rightarrow> w\<lparr> client := s,
                         waiting := remove1 (j, p, owner) (waiting w),
                         finished := finished w @ [(i, out)] \<rparr>)"
  by simp

lemma step_resume_pending:
  assumes "attempt_pending w" "one_attempt w"
  shows "one_attempt (step (Resume i) w)"
proof (cases "find (\<lambda>x. fst x = i) (waiting w)")
  case None
  with assms show ?thesis by (simp only: step_resume_none)
next
  case (Some x)
  obtain j p owner where x: "x = (j, p, owner)" by (cases x)
  from find_waiting[OF Some] assms(2) x have p0: "p = 0"
    by (auto simp: one_attempt_def list_all_iff)
  have "ensureConnected_resume 0 owner (client w) = (Suspended, client w)"
    using assms(1) by (simp add: attempt_pending_def ensureConnected_resume_def promise_state_def)
  with Some x p0 have "step (Resume i) w = w" by (simp only: step_resume_some) simp
  with assms show ?thesis by simp
qed

lemma step_resume_succeeded:
  assumes "attempt_succeeded w" "one_attempt w"
  shows "one_attempt (step (Resume i) w)"
proof (cases "find (\<lambda>x. fst x = i) (waiting w)")
  case None
  with assms show ?thesis by (simp only: step_resume_none)
next
  case (Some x)
  obtain j p owner where x: "x = (j, p, owner)" by (cases x)
  from find_waiting[OF Some] assms(2) x have p0: "p = 0"
    by (auto simp: one_attempt_def list_all_iff)
  let ?s = "if owner then (client w)\<lparr> connecting := None \<rparr> else client w"
  have "ensureConnected_resume 0 owner (client w) = (Returns (), ?s)"
    using assms(1) by (simp add: attempt_succeeded_def ensureConnected_resume_def promise_state_def)
  with Some x p0 have st: "step (Resume i) w =
      w\<lparr> client := ?s, waiting := remove1 (j, 0, owner) (waiting w),
         finished := finished w @ [(i, Returns ())] \<rparr>"
    by (simp only: step_resume_some) simp
  have "attempt_succeeded (step (Resume i) w)"
    using assms(1) unfolding st by (simp add: attempt_succeeded_def)
  moreover have "probes (client (step (Resume i) w)) = 1"
    using assms(2) unfolding st by (simp add: one_attempt_def)
  moreover have "list_all (\<lambda>x. fst (snd x) = 0) (waiting (step (Resume i) w))"
    using assms(2) unfolding st by (simp add: one_attempt_def list_all_remove1)
  ultimately show ?thesis by (simp add: one_attempt_def)
qed

lemma step_resume_failed:
  assumes "attempt_failed e w" "one_attempt w"
  shows "one_attempt (step (Resume i) w)"
proof (cases "find (\<lambda>x. fst x = i) (waiting w)")
  case None
  with assms show ?thesis by (simp only: step_resume_none)
next
  case (Some x)
  obtain j p owner where x: "x = (j, p, owner)" by (cases x)
  from find_waiting[OF Some] assms(2) x have p0: "p = 0"
    by (auto simp: one_attempt_def list_all_iff)
  have "ensureConnected_resume 0 owner (client w) = (Throws e, client w)"
    using assms(1) by (simp add: attempt_failed_def ensureConnected_resume_def promise_state_def)
  with Some x p0 have st: "step (Resume i) w =
      w\<lparr> client := client w, waiting := remove1 (j, 0, owner) (waiting w),
         finished := finished w @ [(i, Throws e)] \<rparr>"
    by (simp only: step_resume_some) simp
  have "attempt_failed e (step (Resume i) w)"
    using assms(1) unfolding st by (simp add: attempt_failed_def)
  moreover have "probes (client (step (Resume i) w)) = 1"
    using assms(2) unfolding st by (simp add: one_attempt_def)
  moreover have "list_all (\<lambda>x. fst (snd x) = 0) (waiting (step (Resume i) w))"
    using assms(2) unfolding st by (simp add: one_attempt_def list_all_remove1)
  ultimately show ?thesis by (auto simp: one_attempt_def)
qed

lemma step_one_attempt:
  assumes "one_attempt w"
  shows "one_attempt (step ev w)"
proof -
  from assms consider (p) "attempt_pending w" | (s) "attempt_succeeded w" | (f) e where "attempt_failed e w"
    by (auto simp: one_attempt_def)
  then show ?thesis
  proof cases
    case p
    with assms show ?thesis
      by (cases ev) (simp_all only: step_call_pending step_probe_pending step_resume_pending)
  next
    case s
    with assms show ?thesis
      by (cases ev) (simp_all only: step_call_succeeded step_probe_succeeded step_resume_succeeded)
  next
    case f
    with assms show ?thesis
      by (cases ev) (simp_all only: step_call_failed step_probe_failed step_resume_failed)
  qed
qed

lemma run_one_attempt: "one_attempt w \<Longrightarrow> one_attempt (run evs w)"
proof (induction evs arbitrary: w)
  case Nil
  then show ?case by simp
next
  case (Cons ev evs)
  from Cons.IH[OF step_one_attempt[OF Cons.prems, of ev]] show ?case by simp
qed


lemma run_untouched: "untouched w \<Longrightarrow> untouched (run evs w) \<or> one_attempt (run evs w)"
proof (induction evs arbitrary: w)
  case Nil
  then show ?case by simp
next
  case (Cons ev evs)
  from step_untouched[OF Cons.prems, of ev] show ?case
  proof
    assume "untouched (step ev w)"
    from Cons.IH[OF this] show ?thesis by simp
  next
    assume "one_attempt (step ev w)"
    from run_one_attempt[OF this, of evs] show ?thesis by simp
  qed
qed

lemma new_world_untouched: "untouched (new_world cfg)"
  by (simp add: untouched_def new_world_def new_SeiMCPClient_def)

text \<open>
  Under any schedule at all, a client that starts new sends at most one probe, and the
  calls of \<^verbatim>\<open>ensureConnected\<close> that have finished have all observed the same outcome.
\<close>

lemma any_schedule_one_probe:
  "probes (client (run evs (new_world cfg))) \<le> 1
   \<and> (\<forall>a \<in> set (finished (run evs (new_world cfg))). \<forall>b \<in> set (finished (run evs (new_world cfg))). snd a = snd b)"
proof -
  let ?w = "run evs (new_world cfg)"
  from run_untouched[OF new_world_untouched, of evs cfg]
  show ?thesis
  proof
    assume "untouched ?w"
    then show ?thesis by (simp add: untouched_def)
  next
    assume o: "one_attempt ?w"
    then consider (p) "attempt_pending ?w" | (s) "attempt_succeeded ?w" | (f) e where "attempt_failed e ?w"
      by (auto simp: one_attempt_def)
    then have "\<forall>a \<in> set (finished ?w). \<forall>b \<in> set (finished ?w). snd a = snd b"
    proof cases
      case p then show ?thesis by (simp add: attempt_pending_def)
    next
      case s then show ?thesis by (simp add: attempt_succeeded_def list_all_iff)
    next
      case f then show ?thesis by (simp add: attempt_failed_def list_all_iff)
    qed
    moreover from o have "probes (client ?w) \<le> 1" by (simp add: one_attempt_def)
    ultimately show ?thesis by (rule conjI[rotated])
  qed
qed



text \<open>
  The callers \<open>0, \<dots>, N - 1\<close> enter one after the other while the client is
  disconnected: the first starts the attempt, the others join it.
\<close>

lemma calls_while_disconnected:
  assumes "\<not> connected s" and "connecting s = None"
  shows "0 < N \<Longrightarrow>
   run (map Call [0..<N]) (idle_world s) =
     \<lparr> client = s\<lparr> transport := Some (new_HTTPMCPTransport (server_url (config s))),
                     probes := probes s + 1, promises := promises s @ [Pending],
                     connecting := Some (length (promises s)) \<rparr>,
       waiting = map (\<lambda>i. (i, length (promises s), i = 0)) [0..<N], finished = [] \<rparr>"
proof (induction N)
  case 0
  then show ?case by simp
next
  case (Suc n)
  show ?case
  proof (cases "n = 0")
    case True
    with assms show ?thesis
      by (simp add: idle_world_def ensureConnected_call_def connect_start_def)
  next
    case False
    with Suc.IH assms show ?thesis
      by (simp add: run_append ensureConnected_call_def)
  qed
qed

lemma find_waiting_caller:
  "i \<in> set ws \<Longrightarrow> find (\<lambda>x. fst x = i) (map (\<lambda>i. (i, p, own i)) ws) = Some (i, p, own i)"
  by (induction ws) auto

lemma remove1_waiting_caller:
  "remove1 (i, p, own i) (map (\<lambda>i. (i, p, own i)) ws) = map (\<lambda>i. (i, p, own i)) (remove1 i ws)"
  by (induction ws) auto

lemma resume_settled:
  assumes "promise_state (client w) p = P" and "P \<noteq> Pending"
    and "waiting w = map (\<lambda>i. (i, p, own i)) ws" and "i \<in> set ws"
  shows "promise_state (client (step (Resume i) w)) p = P
         \<and> probes (client (step (Resume i) w)) = probes (client w)
         \<and> waiting (step (Resume i) w) = map (\<lambda>i. (i, p, own i)) (remove1 i ws)
         \<and> finished (step (Resume i) w) = finished w @ [(i, settled_outcome P)]"
proof -
  have f: "find (\<lambda>x. fst x = i) (waiting w) = Some (i, p, own i)"
    using assms(3,4) by (simp add: find_waiting_caller)
  show ?thesis
  proof (cases P)
    case Pending
    with assms(2) show ?thesis by simp
  next
    case Fulfilled
    with assms(1) have "ensureConnected_resume p (own i) (client w)
        = (Returns (), if own i then (client w)\<lparr> connecting := None \<rparr> else client w)"
      by (simp add: ensureConnected_resume_def)
    with f have "step (Resume i) w =
        w\<lparr> client := (if own i then (client w)\<lparr> connecting := None \<rparr> else client w),
           waiting := remove1 (i, p, own i) (waiting w),
           finished := finished w @ [(i, Returns ())] \<rparr>"
      by (simp only: step_resume_some) simp
    then have st: "step (Resume i) w =
        w\<lparr> client := (if own i then (client w)\<lparr> connecting := None \<rparr> else client w),
           waiting := map (\<lambda>i. (i, p, own i)) (remove1 i ws),
           finished := finished w @ [(i, settled_outcome P)] \<rparr>"
      using assms(3) Fulfilled by (simp only: remove1_waiting_caller settled_outcome.simps)
    have "promise_state ((client w)\<lparr> connecting := None \<rparr>) p = promise_state (client w) p"
      by (simp add: promise_state_def)
    with assms(1)
    have "promise_state (if own i then (client w)\<lparr> connecting := None \<rparr> else client w) p = P"
      by simp
    then show ?thesis unfolding st by simp
  next
    case (Rejected e)
    with assms(1) have "ensureConnected_resume p (own i) (client w) = (Throws e, client w)"
      by (simp add: ensureConnected_resume_def)
    with f have "step (Resume i) w =
        w\<lparr> client := client w,
           waiting := remove1 (i, p, own i) (waiting w),
           finished := finished w @ [(i, Throws e)] \<rparr>"
      by (simp only: step_resume_some) simp
    then have st: "step (Resume i) w =
        w\<lparr> client := client w,
           waiting := map (\<lambda>i. (i, p, own i)) (remove1 i ws),
           finished := finished w @ [(i, settled_outcome P)] \<rparr>"
      using assms(3) Rejected by (simp only: remove1_waiting_caller settled_outcome.simps)
    show ?thesis unfolding st using assms(1) by simp
  qed
qed

lemma resume_all_settled:
  assumes "promise_state (client w) p = P" and "P \<noteq> Pending"
    and "waiting w = map (\<lambda>i. (i, p, own i)) ws" and "distinct ws"
    and "distinct order" and "set order \<subseteq> set ws"
  shows "probes (client (run (map Resume order) w)) = probes (client w)
         \<and> waiting (run (map Resume order) w) = map (\<lambda>i. (i, p, own i)) (filter (\<lambda>i. i \<notin> set order) ws)
         \<and> finished (run (map Resume order) w) = finished w @ map (\<lambda>i. (i, settled_outcome P)) order"
  using assms
proof (induction order arbitrary: w ws)
  case Nil
  then show ?case by simp
next
  case (Cons i order)
  from Cons.prems have i: "i \<in> set ws" by simp
  from resume_settled[OF Cons.prems(1,2,3) i]
  have r: "promise_state (client (step (Resume i) w)) p = P"
    "probes (client (step (Resume i) w)) = probes (client w)"
    "waiting (step (Resume i) w) = map (\<lambda>i. (i, p, own i)) (remove1 i ws)"
    "finished (step (Resume i) w) = finished w @ [(i, settled_outcome P)]"
    by simp_all
  have d: "distinct (remove1 i ws)" using Cons.prems(4) by simp
  have o: "distinct order" using Cons.prems(5) by simp
  have sub: "set order \<subseteq> set (remove1 i ws)"
    using Cons.prems(4,5,6) by auto
  from Cons.IH[OF r(1) Cons.prems(2) r(3) d o sub]
  have ih: "probes (client (run (map Resume order) (step (Resume i) w))) = probes (client (step (Resume i) w))"
    "waiting (run (map Resume order) (step (Resume i) w))
       = map (\<lambda>i. (i, p, own i)) (filter (\<lambda>i. i \<notin> set order) (remove1 i ws))"
    "finished (run (map Resume order) (step (Resume i) w))
       = finished (step (Resume i) w) @ map (\<lambda>i. (i, settled_outcome P)) order"
    by simp_all
  have "remove1 i ws = filter (\<lambda>j. i \<noteq> j) ws"
    using Cons.prems(4) by (simp add: distinct_remove1_removeAll removeAll_filter_not_eq)
  then have "filter (\<lambda>j. j \<notin> set order) (remove1 i ws) = filter (\<lambda>j. j \<notin> set (i # order)) ws"
    by (auto intro: filter_cong)
  with ih r show ?case by simp
qed

lemma probe_done_after_calls:
  "step (ProbeDone (length (promises s)) now reply)
     \<lparr> client = s\<lparr> transport := Some (new_HTTPMCPTransport (server_url (config s))),
                     probes := probes s + 1, promises := promises s @ [Pending],
                     connecting := Some (length (promises s)) \<rparr>,
       waiting = ws, finished = [] \<rparr> = w'
   \<Longrightarrow> \<exists>P. promise_state (client w') (length (promises s)) = P \<and> P \<noteq> Pending
         \<and> settled_outcome P = connection_outcome (config s) now reply
         \<and> probes (client w') = probes s + 1 \<and> waiting w' = ws \<and> finished w' = []"
  by (auto simp: connect_finish_def promise_state_def connection_outcome_def split: sum.splits)

text \<open>
  Where no earlier attempt is stored (\<^verbatim>\<open>connecting\<close> is \<^verbatim>\<open>null\<close>), sharing works:
  let \<open>N > 0\<close> callers enter \<^verbatim>\<open>ensureConnected\<close> on such a disconnected client before
  the probe is answered, and let them be resumed in any order once it is. Then exactly
  one probe has been sent, no caller is left suspended, and every caller has observed
  the outcome of the one attempt, success or its \<^verbatim>\<open>MCPConnectionError\<close>. Under every
  schedule of calls, probe answers and resumptions on a new client, at most one probe
  is sent and all finished callers agree.
\<close>

lemma concurrent_calls_share_one_attempt:
  assumes "0 < N" and "distinct order" and "set order = {0..<N}"
    and "\<not> connected s" and "connecting s = None"
  shows "probes (client (run (map Call [0..<N] @ ProbeDone (length (promises s)) now reply # map Resume order)
                          (idle_world s))) = probes s + 1
     \<and> waiting (run (map Call [0..<N] @ ProbeDone (length (promises s)) now reply # map Resume order)
                   (idle_world s)) = []
     \<and> finished (run (map Call [0..<N] @ ProbeDone (length (promises s)) now reply # map Resume order)
                    (idle_world s))
         = map (\<lambda>i. (i, connection_outcome (config s) now reply)) order
     \<and> (\<forall>evs cfg. probes (client (run evs (new_world cfg))) \<le> 1
          \<and> (\<forall>a \<in> set (finished (run evs (new_world cfg))).
              \<forall>b \<in> set (finished (run evs (new_world cfg))). snd a = snd b))"
proof -
  let ?p = "length (promises s)"
  let ?w1 = "run (map Call [0..<N]) (idle_world s)"
  let ?w2 = "step (ProbeDone ?p now reply) ?w1"
  let ?w3 = "run (map Resume order) ?w2"
  have split: "run (map Call [0..<N] @ ProbeDone ?p now reply # map Resume order) (idle_world s) = ?w3"
    by (simp add: run_append)
  from probe_done_after_calls[OF refl, of s now reply "map (\<lambda>i. (i, ?p, i = 0)) [0..<N]"]
  obtain P where P: "promise_state (client ?w2) ?p = P" "P \<noteq> Pending"
    "settled_outcome P = connection_outcome (config s) now reply"
    "probes (client ?w2) = probes s + 1" "waiting ?w2 = map (\<lambda>i. (i, ?p, i = 0)) [0..<N]"
    "finished ?w2 = []"
    unfolding calls_while_disconnected[OF assms(4,5,1)] by blast
  have sub: "set order \<subseteq> set [0..<N]" using assms(3) by simp
  from resume_all_settled[OF P(1,2,5) distinct_upt assms(2) sub]
  have r: "probes (client ?w3) = probes (client ?w2)"
    "waiting ?w3 = map (\<lambda>i. (i, ?p, i = 0)) (filter (\<lambda>i. i \<notin> set order) [0..<N])"
    "finished ?w3 = finished ?w2 @ map (\<lambda>i. (i, settled_outcome P)) order"
    by simp_all
  have "filter (\<lambda>i. i \<notin> set order) [0..<N] = []"
    using assms(3) by (simp add: filter_empty_conv)
  with r P have "probes (client ?w3) = probes s + 1" "waiting ?w3 = []"
    "finished ?w3 = map (\<lambda>i. (i, connection_outcome (config s) now reply)) order"
    by simp_all
  then show ?thesis
    unfolding split using any_schedule_one_probe by blast
qed

lemma example_connection_outcomes:
  "connection_outcome example_config 1000 (HttpResponse 200 ''OK'' (Inr (JObj [(''status'', JStr ''ok'')]))) = Returns ()"
  "connection_outcome example_config 1000 (HttpResponse 503 ''Service Unavailable'' (Inl ''Unexpected token''))
     = Throws (MCPConnectionError ''Failed to connect to MCP server at http://localhost:3004: Health check failed: 503 Service Unavailable'')"
  by code_simp+

lemma three_calls_on_new_client:
  "(0::nat) < 3 \<and> distinct [2, 0, 1::nat] \<and> set [2, 0, 1::nat] = {0..<3}
   \<and> \<not> connected (new_SeiMCPClient example_config) \<and> connecting (new_SeiMCPClient example_config) = None
   \<and> probes (client (run (map Call [0..<3] @
         ProbeDone 0 1000 (HttpResponse 200 ''OK'' (Inr (JObj [(''status'', JStr ''ok'')]))) # map Resume [2, 0, 1])
         (idle_world (new_SeiMCPClient example_config)))) = 1
   \<and> finished (run (map Call [0..<3] @
         ProbeDone 0 1000 (HttpResponse 200 ''OK'' (Inr (JObj [(''status'', JStr ''ok'')]))) # map Resume [2, 0, 1])
         (idle_world (new_SeiMCPClient example_config)))
       = [(2, Returns ()), (0, Returns ()), (1, Returns ())]
   \<and> probes (client (run (map Call [0..<3] @
         ProbeDone 0 1000 (HttpResponse 503 ''Service Unavailable'' (Inl ''Unexpected token'')) # map Resume [2, 0, 1])
         (idle_world (new_SeiMCPClient example_config)))) = 1
   \<and> finished (run (map Call [0..<3] @
         ProbeDone 0 1000 (HttpResponse 503 ''Service Unavailable'' (Inl ''Unexpected token'')) # map Resume [2, 0, 1])
         (idle_world (new_SeiMCPClient example_config)))
       = [(2, Throws (MCPConnectionError ''Failed to connect to MCP server at http://localhost:3004: Health check failed: 503 Service Unavailable'')),
          (0, Throws (MCPConnectionError ''Failed to connect to MCP server at http://localhost:3004: Health check failed: 503 Service Unavailable'')),
          (1, Throws (MCPConnectionError ''Failed to connect to MCP server at http://localhost:3004: Health check failed: 503 Service Unavailable''))]"
proof -
  have n: "(0::nat) < 3" by simp
  have d: "distinct [2, 0, 1::nat]" by simp
  have s: "set [2, 0, 1::nat] = {0..<3}" by auto
  have c: "\<not> connected (new_SeiMCPClient example_config)"
    and g: "connecting (new_SeiMCPClient example_config) = None"
    and l: "length (promises (new_SeiMCPClient example_config)) = 0"
    and p: "probes (new_SeiMCPClient example_config) + 1 = 1"
    and f: "config (new_SeiMCPClient example_config) = example_config"
    by (simp_all add: new_SeiMCPClient_def)
  from concurrent_calls_share_one_attempt[OF n d s c g, of 1000
         "HttpResponse 200 ''OK'' (Inr (JObj [(''status'', JStr ''ok'')]))"]
       concurrent_calls_share_one_attempt[OF n d s c g, of 1000
         "HttpResponse 503 ''Service Unavailable'' (Inl ''Unexpected token'')"]
       n d s c g
  show ?thesis by (simp only: example_connection_outcomes list.map l p f simp_thms)
qed

text \<open>
  Where an earlier attempt has failed, its rejected promise is still stored, the client
  is disconnected, and every caller joins the old attempt: no probe is sent and each
  caller is thrown the old error.
\<close>

lemma calls_join_stored_attempt:
  assumes "\<not> connected s" and "connecting s = Some p"
  shows "run (map Call [0..<N]) (idle_world s) =
     \<lparr> client = s, waiting = map (\<lambda>i. (i, p, False)) [0..<N], finished = [] \<rparr>"
proof (induction N)
  case 0
  then show ?case by (simp add: idle_world_def)
next
  case (Suc n)
  with assms show ?case by (simp add: run_append ensureConnected_call_def)
qed

lemma concurrent_calls_after_failure:
  assumes "\<not> connected s" and "connecting s = Some p" and "promise_state s p = Rejected e"
    and "distinct order" and "set order = {0..<N}"
  shows "probes (client (run (map Call [0..<N] @ map Resume order) (idle_world s))) = probes s
     \<and> finished (run (map Call [0..<N] @ map Resume order) (idle_world s))
         = map (\<lambda>i. (i, Throws e)) order"
proof -
  let ?w1 = "run (map Call [0..<N]) (idle_world s)"
  have w1: "?w1 = \<lparr> client = s, waiting = map (\<lambda>i. (i, p, False)) [0..<N], finished = [] \<rparr>"
    by (rule calls_join_stored_attempt[OF assms(1,2)])
  have a: "promise_state (client ?w1) p = Rejected e" unfolding w1 using assms(3) by simp
  have b: "Rejected e \<noteq> Pending" by simp
  have c: "waiting ?w1 = map (\<lambda>i. (i, p, False)) [0..<N]" unfolding w1 by simp
  have sub: "set order \<subseteq> set [0..<N]" using assms(5) by simp
  from resume_all_settled[where own = "\<lambda>i. False", OF a b c distinct_upt assms(4) sub]
  have "probes (client (run (map Resume order) ?w1)) = probes (client ?w1)"
    "finished (run (map Resume order) ?w1) = finished ?w1 @ map (\<lambda>i. (i, settled_outcome (Rejected e))) order"
    by simp_all
  then show ?thesis unfolding run_append unfolding w1 by simp
qed

text \<open>
  Claim C3 on the code. After the failed first attempt of a new client, the client is
  disconnected (\<^verbatim>\<open>connected\<close> false, \<^verbatim>\<open>transport\<close> null). Three callers now enter
  \<^verbatim>\<open>ensureConnected\<close> concurrently while the server is healthy again. No liveness
  probe is sent (the count stays at the one probe of the failed attempt), although the
  claim requires exactly one; all three are thrown the error of the old attempt, and
  the client stays disconnected.
\<close>

theorem concurrent_calls_after_failed_attempt:
  "\<not> connected (snd failed_connect)
   \<and> transport (snd failed_connect) = None
   \<and> probes (snd failed_connect) = 1
   \<and> probes (client (run [Call 0, Call 1, Call 2,
                           ProbeDone 0 2000 (HttpResponse 200 ''OK'' (Inr (JObj [(''status'', JStr ''ok'')]))),
                           ProbeDone 1 2000 (HttpResponse 200 ''OK'' (Inr (JObj [(''status'', JStr ''ok'')]))),
                           Resume 0, Resume 1, Resume 2]
                       (idle_world (snd failed_connect)))) = 1
   \<and> finished (run [Call 0, Call 1, Call 2,
                     ProbeDone 0 2000 (HttpResponse 200 ''OK'' (Inr (JObj [(''status'', JStr ''ok'')]))),
                     ProbeDone 1 2000 (HttpResponse 200 ''OK'' (Inr (JObj [(''status'', JStr ''ok'')]))),
                     Resume 0, Resume 1, Resume 2]
                 (idle_world (snd failed_connect)))
       = [(0, Throws (MCPConnectionError ''Failed to connect to MCP server at http://localhost:3004: fetch failed'')),
          (1, Throws (MCPConnectionError ''Failed to connect to MCP server at http://localhost:3004: fetch failed'')),
          (2, Throws (MCPConnectionError ''Failed to connect to MCP server at http://localhost:3004: fetch failed''))]
   \<and> \<not> connected (client (run [Call 0, Call 1, Call 2,
                           ProbeDone 0 2000 (HttpResponse 200 ''OK'' (Inr (JObj [(''status'', JStr ''ok'')]))),
                           ProbeDone 1 2000 (HttpResponse 200 ''OK'' (Inr (JObj [(''status'', JStr ''ok'')]))),
                           Resume 0, Resume 1, Resume 2]
                       (idle_world (snd failed_connect))))"
  by code_simp

end
